theory Spec2Isabelle
  imports
    Main
    "HOL-Library.Char_ord"
    "HOL-Library.List_Lexorder"
    "HOL-Library.Product_Lexorder"
    "HOL-Library.Sublist"
begin

section \<open>Python and pandas primitives used by \<^verbatim>\<open>app.py\<close>\<close>

text \<open>
  A Python \<^verbatim>\<open>str\<close> that the program inspects character by character is the
  list of its Unicode code points; \<open>codepoints\<close> gives the code points of an ASCII
  literal.  Text that is only compared and sorted is kept as a \<^typ>\<open>string\<close> (its
  UTF-8 bytes, whose order is the order of the code points).
\<close>

type_synonym pystr = "nat list"

definition codepoints :: "string \<Rightarrow> pystr" where
  "codepoints s = map of_char s"

text \<open>
  A cell of a column as \<^verbatim>\<open>pd.read_csv\<close> delivers it: \<open>NA\<close> when
  \<^verbatim>\<open>pd.isna(x)\<close> holds (an empty field, read as NaN), and \<open>Val s\<close> for a
  present value whose Python \<^verbatim>\<open>str(x)\<close> is \<open>s\<close> (for a float column
  that is the float's repr, such as \<^verbatim>\<open>90210.0\<close>).
\<close>

datatype cell = NA | Val pystr

text \<open>
  The characters \<^verbatim>\<open>str.strip()\<close> removes are those for which
  \<^verbatim>\<open>str.isspace\<close> holds: U+0009 to U+000D, U+001C to U+001F, U+0020, U+0085,
  U+00A0, U+1680, U+2000 to U+200A, U+2028, U+2029, U+202F, U+205F and U+3000.
\<close>

definition py_isspace :: "nat \<Rightarrow> bool" where
  "py_isspace c =
     (c \<in> set [0x09, 0x0A, 0x0B, 0x0C, 0x0D, 0x1C, 0x1D, 0x1E, 0x1F, 0x20, 0x85, 0xA0,
                 0x1680, 0x2028, 0x2029, 0x202F, 0x205F, 0x3000] \<or>
      (0x2000 \<le> c \<and> c \<le> 0x200A))"

definition strip :: "pystr \<Rightarrow> pystr" where
  "strip s = rev (dropWhile py_isspace (rev (dropWhile py_isspace s)))"

definition endswith :: "pystr \<Rightarrow> pystr \<Rightarrow> bool" where
  "endswith s suf = (length suf \<le> length s \<and> drop (length s - length suf) s = suf)"

section \<open>Helpers of \<^verbatim>\<open>app.py\<close>\<close>

text \<open>
  \<^verbatim>\<open>
  def clean_postal(x):
      if pd.isna(x):
          return "Unknown"
      s = str(x).strip()
      if s.endswith(".0"):
          s = s[:-2]
      return s
  \<close>
\<close>

fun clean_postal :: "cell \<Rightarrow> pystr" where
  "clean_postal NA = codepoints ''Unknown''"
| "clean_postal (Val x) =
     (let s = strip x in
      if endswith s (codepoints ''.0'') then take (length s - 2) s else s)"

text \<open>
  One order line.  The same record serves before and after normalization: \<open>'d\<close>
  is the type of the two date columns and \<open>'p\<close> of the postal code (both
  \<^typ>\<open>cell\<close> as read from the file; a timestamp or NaT, and a \<^typ>\<open>pystr\<close>, once
  normalized), \<open>'s\<close> the type of the sales amount (a float in the program, which is
  only copied, compared for equality, summed and rounded).  The country, region, state
  and city cells are \<open>None\<close> when the field is empty (NaN), which matters where the
  region key is looked up.  The identifier, name, segment, ship-mode and category cells
  and the sales amount are taken to be present in every row.
\<close>

record ('d, 'p, 's) order_line =
  row_id :: int
  order_id :: string
  order_date :: 'd
  ship_date :: 'd
  ship_mode :: string
  customer_id :: string
  customer_name :: string
  segment :: string
  country :: "string option"
  region :: "string option"
  state :: "string option"
  city :: "string option"
  postal_code :: 'p
  product_id :: string
  product_name :: string
  category :: string
  sub_category :: string
  sales :: 's

text \<open>
  A calendar date, as \<^verbatim>\<open>(year, month, day)\<close>, and a timestamp: its date
  (\<^verbatim>\<open>.dt.date\<close>) and its time of day in nanoseconds since midnight.  Both
  compare lexicographically, which is the order of the product types and the order of
  time.  A parsed date column holds \<open>Some t\<close> or \<open>None\<close> for \<^verbatim>\<open>NaT\<close>; a
  column parsed from day-first dates without a time holds midnight timestamps.
\<close>

type_synonym date = "int \<times> int \<times> int"

type_synonym timestamp = "date \<times> int"

type_synonym 's normalized = "(timestamp option, pystr, 's) order_line"

subsection \<open>Duplicates\<close>

text \<open>
  \<^verbatim>\<open>duplicated(keep="first")\<close>: the mask that is true at a row whose key has
  been seen at an earlier row.  \<^verbatim>\<open>df.loc[~mask]\<close> keeps the other rows, and
  \<^verbatim>\<open>drop_duplicates\<close> is pandas' \<^verbatim>\<open>self[~self.duplicated(subset)]\<close>.
  Missing values count as equal to each other, as equality of \<open>None\<close> does.
\<close>

fun duplicated_from :: "'k list \<Rightarrow> 'k list \<Rightarrow> bool list" where
  "duplicated_from seen [] = []"
| "duplicated_from seen (k # ks) = (k \<in> set seen) # duplicated_from (k # seen) ks"

definition duplicated :: "'k list \<Rightarrow> bool list" where
  "duplicated ks = duplicated_from [] ks"

definition loc_not :: "bool list \<Rightarrow> 'a list \<Rightarrow> 'a list" where
  "loc_not dups df = map fst (filter (\<lambda>(r, dup). \<not> dup) (zip df dups))"

definition drop_duplicates_on :: "('a \<Rightarrow> 'k) \<Rightarrow> 'a list \<Rightarrow> 'a list" where
  "drop_duplicates_on cols df = loc_not (duplicated (map cols df)) df"

definition drop_duplicates :: "'a list \<Rightarrow> 'a list" where
  "drop_duplicates df = drop_duplicates_on (\<lambda>r. r) df"

subsection \<open>Loading\<close>

text \<open>
  \<^verbatim>\<open>
  cols_no_rowid = [c for c in df.columns if c != "Row ID"]
  \<close>
\<close>

definition cols_no_rowid ::
  "('d, 'p, 's) order_line \<Rightarrow>
     string \<times> 'd \<times> 'd \<times> string \<times> string \<times> string \<times> string \<times> string option \<times>
     string option \<times> string option \<times> string option \<times> 'p \<times> string \<times> string \<times> string \<times>
     string \<times> 's" where
  "cols_no_rowid r =
     (order_id r, order_date r, ship_date r, ship_mode r, customer_id r, customer_name r,
      segment r, country r, region r, state r, city r, postal_code r, product_id r,
      product_name r, category r, sub_category r, sales r)"

text \<open>
  The frame after the two date columns are parsed and the postal code is cleaned.
  \<open>to_datetime col x\<close> stands for the entry pandas'
  \<^verbatim>\<open>pd.to_datetime(col, dayfirst=True, errors="coerce")\<close> computes for the
  cell \<open>x\<close> of the column \<open>col\<close> (the format is inferred from the column):
  the parsed timestamp, or \<open>None\<close> (NaT) when the cell is missing or does not parse.
  The parser is a parameter of the model.
\<close>

definition parse_and_clean ::
  "(cell list \<Rightarrow> cell \<Rightarrow> timestamp option) \<Rightarrow> (cell, cell, 's) order_line list \<Rightarrow>
     's normalized list" where
  "parse_and_clean to_datetime df =
     map (\<lambda>r. \<lparr> row_id = row_id r, order_id = order_id r,
                order_date = to_datetime (map order_date df) (order_date r),
                ship_date = to_datetime (map ship_date df) (ship_date r),
                ship_mode = ship_mode r, customer_id = customer_id r,
                customer_name = customer_name r, segment = segment r,
                country = country r, region = region r, state = state r, city = city r,
                postal_code = clean_postal (postal_code r),
                product_id = product_id r, product_name = product_name r,
                category = category r, sub_category = sub_category r,
                sales = sales r \<rparr>) df"

text \<open>
  \<^verbatim>\<open>
  def load_and_prepare_raw(csv_path: str) -> pd.DataFrame:
      df = pd.read_csv(csv_path)
      df["Order Date"] = pd.to_datetime(df["Order Date"], dayfirst=True, errors="coerce")
      df["Ship Date"]  = pd.to_datetime(df["Ship Date"],  dayfirst=True, errors="coerce")
      df["Postal Code"] = df["Postal Code"].apply(clean_postal)
      cols_no_rowid = [c for c in df.columns if c != "Row ID"]
      df = df.loc[~df.duplicated(subset=cols_no_rowid, keep="first")].copy()
      return df
  \<close>
  The argument \<open>csv\<close> is the frame \<^verbatim>\<open>pd.read_csv\<close> returns.
\<close>

definition load_and_prepare_raw ::
  "(cell list \<Rightarrow> cell \<Rightarrow> timestamp option) \<Rightarrow> (cell, cell, 's) order_line list \<Rightarrow>
     's normalized list" where
  "load_and_prepare_raw to_datetime csv =
     (let df = parse_and_clean to_datetime csv
      in loc_not (duplicated (map cols_no_rowid df)) df)"

section \<open>The calendar\<close>

text \<open>
  The proleptic Gregorian calendar of Python's \<^verbatim>\<open>datetime\<close>, on which the
  timestamps of pandas rest: \<^verbatim>\<open>_is_leap\<close>, \<^verbatim>\<open>_days_in_month\<close>,
  \<^verbatim>\<open>_days_before_year\<close>, \<^verbatim>\<open>_days_before_month\<close> and
  \<^verbatim>\<open>_ymd2ord\<close> (the day number of a date, \<^verbatim>\<open>toordinal\<close>).
\<close>

definition is_leap :: "int \<Rightarrow> bool" where
  "is_leap y = (y mod 4 = 0 \<and> (y mod 100 \<noteq> 0 \<or> y mod 400 = 0))"

definition days_in_month :: "int \<Rightarrow> int \<Rightarrow> int" where
  "days_in_month y m =
     (if m = 2 then (if is_leap y then 29 else 28)
      else if m = 4 \<or> m = 6 \<or> m = 9 \<or> m = 11 then 30 else 31)"

definition days_before_year :: "int \<Rightarrow> int" where
  "days_before_year y = (y - 1) * 365 + (y - 1) div 4 - (y - 1) div 100 + (y - 1) div 400"

definition days_before_month :: "int \<Rightarrow> int \<Rightarrow> int" where
  "days_before_month y m = sum_list (map (days_in_month y) [1..m - 1])"

fun toordinal :: "date \<Rightarrow> int" where
  "toordinal (y, m, d) = days_before_year y + days_before_month y m + d"

fun valid_date :: "date \<Rightarrow> bool" where
  "valid_date (y, m, d) = (1 \<le> m \<and> m \<le> 12 \<and> 1 \<le> d \<and> d \<le> days_in_month y m)"

text \<open>The day after a date: what adding the frequency \<^verbatim>\<open>"D"\<close> does.\<close>

fun next_day :: "date \<Rightarrow> date" where
  "next_day (y, m, d) =
     (if d < days_in_month y m then (y, m, d + 1)
      else if m < 12 then (y, m + 1, 1)
      else (y + 1, 1, 1))"

fun days_from :: "nat \<Rightarrow> date \<Rightarrow> date list" where
  "days_from 0 d = []"
| "days_from (Suc n) d = d # days_from n (next_day d)"

text \<open>
  The ISO week of a date, as \<^verbatim>\<open>date.isocalendar()\<close> computes it from the
  day numbers (\<^verbatim>\<open>_isoweek1monday\<close>).
\<close>

definition isoweek1monday :: "int \<Rightarrow> int" where
  "isoweek1monday y =
     (let firstday = toordinal (y, 1, 1);
          firstweekday = (firstday + 6) mod 7;
          week1monday = firstday - firstweekday
      in if firstweekday > 3 then week1monday + 7 else week1monday)"

fun iso_week :: "date \<Rightarrow> int" where
  "iso_week (y, m, d) =
     (let today = toordinal (y, m, d);
          week = (today - isoweek1monday y) div 7
      in if week < 0 then (today - isoweek1monday (y - 1)) div 7 + 1
         else if week \<ge> 52 \<and> today \<ge> isoweek1monday (y + 1) then 1
         else week + 1)"

definition month_names :: "string list" where
  "month_names = [''January'', ''February'', ''March'', ''April'', ''May'', ''June'',
     ''July'', ''August'', ''September'', ''October'', ''November'', ''December'']"

section \<open>Errors and pandas operations of the build\<close>

datatype error = ValueError | KeyError

text \<open>
  \<^verbatim>\<open>Series.min()\<close> and \<^verbatim>\<open>Series.max()\<close> of a date column skip NaT
  and give NaT when nothing is left.  These operations use only the order of the
  dates, so they are stated for any linearly ordered type.
\<close>

definition series_min :: "('a::linorder) option list \<Rightarrow> 'a option" where
  "series_min col =
     (case List.map_filter (\<lambda>x. x) col of [] \<Rightarrow> None | d # ds \<Rightarrow> Some (fold min ds d))"

definition series_max :: "('a::linorder) option list \<Rightarrow> 'a option" where
  "series_max col =
     (case List.map_filter (\<lambda>x. x) col of [] \<Rightarrow> None | d # ds \<Rightarrow> Some (fold max ds d))"

text \<open>
  Every ordering comparison with NaT is false.  Python's builtin \<^verbatim>\<open>min(a, b)\<close>
  keeps \<open>a\<close> unless \<^verbatim>\<open>b < a\<close>, and \<^verbatim>\<open>max(a, b)\<close> keeps \<open>a\<close>
  unless \<^verbatim>\<open>b > a\<close>.
\<close>

fun ts_less :: "('a::linorder) option \<Rightarrow> 'a option \<Rightarrow> bool" where
  "ts_less (Some a) (Some b) = (a < b)"
| "ts_less _ _ = False"

definition py_min :: "('a::linorder) option \<Rightarrow> 'a option \<Rightarrow> 'a option" where
  "py_min a b = (if ts_less b a then b else a)"

definition py_max :: "('a::linorder) option \<Rightarrow> 'a option \<Rightarrow> 'a option" where
  "py_max a b = (if ts_less a b then b else a)"

text \<open>
  A timestamp as pandas stores it, a number of nanoseconds (here counted from the day
  before 0001-01-01, which shifts every value by the same amount).  A timestamp is
  well formed when its date is a calendar date and its time of day is within the day.
\<close>

definition day_ns :: int where
  "day_ns = 86400000000000"

fun ts_value :: "timestamp \<Rightarrow> int" where
  "ts_value (d, t) = toordinal d * day_ns + t"

fun valid_ts :: "timestamp \<Rightarrow> bool" where
  "valid_ts (d, t) = (valid_date d \<and> 0 \<le> t \<and> t < day_ns)"

text \<open>
  \<^verbatim>\<open>pd.date_range(start, end, freq="D")\<close>: pandas raises
  \<^verbatim>\<open>ValueError("Neither `start` nor `end` can be NaT")\<close> when a bound is NaT;
  otherwise it steps by 24 hours from \<open>start\<close> while the timestamp is not after
  \<open>end\<close>, which makes \<^verbatim>\<open>(end.value - start.value) // stride + 1\<close> timestamps
  (none when \<open>end\<close> is before \<open>start\<close>), each with the time of day of
  \<open>start\<close>.
\<close>

fun date_range :: "timestamp option \<Rightarrow> timestamp option \<Rightarrow> error + timestamp list" where
  "date_range (Some s) (Some e) =
     Inr (map (\<lambda>d. (d, snd s))
            (days_from (nat ((ts_value e - ts_value s) div day_ns + 1)) (fst s)))"
| "date_range _ _ = Inl ValueError"

text \<open>
  \<^verbatim>\<open>dict(zip(keys, values))\<close> and a loop of \<^verbatim>\<open>d[k] = v\<close>: the pairs are
  stored in order, a later pair replacing an earlier one with the same key.
\<close>

definition py_dict :: "('k \<times> 'v) list \<Rightarrow> ('k \<rightharpoonup> 'v)" where
  "py_dict kvs = fold (\<lambda>(k, v) m. m(k \<mapsto> v)) kvs Map.empty"

text \<open>
  \<^verbatim>\<open>groupby(cols).size()\<close>: one entry per distinct key, the keys ascending,
  with the number of rows that have the key.
\<close>

definition groupby_size :: "('k::linorder) list \<Rightarrow> ('k \<times> int) list" where
  "groupby_size ks = map (\<lambda>k. (k, int (count_list ks k))) (sort (remdups ks))"

text \<open>\<^verbatim>\<open>range(1, len(rows) + 1)\<close>, inserted as the first column.\<close>

definition insert_key :: "'a list \<Rightarrow> (int \<times> 'a) list" where
  "insert_key rows = zip [1..int (length rows)] rows"

section \<open>The star schema\<close>

record dim_date_row =
  full_date :: timestamp
  date_key :: int
  day :: int
  month :: int
  month_name :: string
  quarter :: int
  year :: int
  week_of_year :: int

type_synonym geo =
  "string option \<times> string option \<times> string option \<times> string option \<times> pystr"

record 's fact_row =
  sales_id :: int
  fact_row_id :: int
  fact_order_id :: string
  order_date_key :: "int option"
  ship_date_key :: "int option"
  customer_key :: "int option"
  product_key :: "int option"
  region_key :: int
  ship_mode_key :: "int option"
  sales_amount :: 's

text \<open>
  The six tables \<^verbatim>\<open>build_star_schema\<close> returns.  A dimension row is its
  surrogate key followed by its columns: \<open>(customer_key, Customer ID, Customer Name,
  Segment)\<close>, \<open>(product_key, Product ID, Category, sub_category, product_name)\<close>,
  \<open>(region_key, (Country, Region, State, City, Postal Code))\<close> and
  \<open>(ship_mode_key, ship_mode)\<close>.  A key column filled by \<^verbatim>\<open>Series.map\<close>
  holds \<open>None\<close> (NaN) where the lookup found nothing.
\<close>

record 's star_schema =
  dim_date :: "dim_date_row list"
  dim_customer :: "(int \<times> string \<times> string \<times> string) list"
  dim_product :: "(int \<times> string \<times> string \<times> string \<times> string option) list"
  dim_region :: "(int \<times> geo) list"
  dim_ship_mode :: "(int \<times> string) list"
  fact_sales :: "'s fact_row list"

text \<open>
  \<^verbatim>\<open>
  name_counts = (df.groupby(["Product ID", "Product Name"]).size().reset_index(name="n")
        .sort_values(["Product ID", "n", "Product Name"], ascending=[True, False, True]))
  mode_name = (name_counts.drop_duplicates("Product ID")[["Product ID", "Product Name"]]
        .set_index("Product ID")["Product Name"])
  \<close>
  The descending count is sorted as the ascending negated count.
\<close>

definition name_counts :: "'s normalized list \<Rightarrow> ((string \<times> string) \<times> int) list" where
  "name_counts df =
     sort_key (\<lambda>((pid, name), n). (pid, - n, name))
       (groupby_size (map (\<lambda>r. (product_id r, product_name r)) df))"

definition mode_name :: "'s normalized list \<Rightarrow> (string \<rightharpoonup> string)" where
  "mode_name df = map_of (map fst (drop_duplicates_on (\<lambda>((pid, name), n). pid) (name_counts df)))"

text \<open>
  One row of \<^verbatim>\<open>dim_date\<close>, lines 61 to 68.  The key
  \<^verbatim>\<open>strftime("%Y%m%d").astype(int)\<close> is the number written with the year, two
  digits of month and two digits of day, which is \<open>y * 10000 + m * 100 + d\<close> for the
  years a timestamp can hold (1677 to 2262); \<open>ymd_key\<close> is that number.  The other
  columns are read from the date of the timestamp too.
\<close>

fun ymd_key :: "date \<Rightarrow> int" where
  "ymd_key (y, m, d) = y * 10000 + m * 100 + d"

fun dim_date_of :: "timestamp \<Rightarrow> dim_date_row" where
  "dim_date_of ((y, m, d), t) =
     \<lparr> full_date = ((y, m, d), t), date_key = ymd_key (y, m, d), day = d, month = m,
       month_name = month_names ! nat (m - 1), quarter = (m - 1) div 3 + 1, year = y,
       week_of_year = iso_week (y, m, d) \<rparr>"

definition geo_of :: "'s normalized \<Rightarrow> geo" where
  "geo_of r = (country r, region r, state r, city r, postal_code r)"

text \<open>
  A region tuple with a NaN cell.  NaN is not equal to NaN, so the tuple that
  \<^verbatim>\<open>zip\<close> builds from the frame is not equal to the tuple that
  \<^verbatim>\<open>itertuples\<close> built from \<^verbatim>\<open>dim_region\<close>: the lookup
  \<^verbatim>\<open>geo_to_key[t]\<close> of line 131 does not find it by equality and raises
  \<^verbatim>\<open>KeyError\<close>.  (Python would find the tuple only if its NaN were the very
  object held by the key; nothing below relies on that.)  The postal code is never NaN
  after \<^verbatim>\<open>clean_postal\<close>.
\<close>

fun has_nan :: "geo \<Rightarrow> bool" where
  "has_nan (c, r, s, ci, p) = (c = None \<or> r = None \<or> s = None \<or> ci = None)"

definition geo_lookup :: "(geo \<rightharpoonup> int) \<Rightarrow> geo \<Rightarrow> int option" where
  "geo_lookup g2k t = (if has_nan t then None else g2k t)"

text \<open>
  \<^verbatim>\<open>sort_values(geo_cols)\<close> orders the rows by the columns in turn and puts
  a NaN after every text of its column (\<^verbatim>\<open>na_position="last"\<close>): the sort key
  of a cell is the pair of "is NaN" and the text.
\<close>

fun na_last :: "string option \<Rightarrow> bool \<times> string" where
  "na_last None = (True, [])"
| "na_last (Some s) = (False, s)"

fun geo_sort_key ::
  "geo \<Rightarrow> (bool \<times> string) \<times> (bool \<times> string) \<times> (bool \<times> string) \<times> (bool \<times> string) \<times> pystr" where
  "geo_sort_key (c, r, s, ci, p) = (na_last c, na_last r, na_last s, na_last ci, p)"

text \<open>
  Lines 122 to 144: the fact table, from the frame and the five lookups
  \<^verbatim>\<open>date_to_key\<close>, \<^verbatim>\<open>cust_to_key\<close>, \<^verbatim>\<open>prod_to_key\<close>,
  \<^verbatim>\<open>geo_to_key\<close> and \<^verbatim>\<open>ship_to_key\<close> (in this order).  The date,
  customer, product and ship-mode keys come from \<^verbatim>\<open>Series.map(dict)\<close>, which
  leaves NaN where the dictionary has no entry (and where the date is NaT); a date is
  looked up by \<^verbatim>\<open>.dt.date\<close>, the date of its timestamp.  The region key comes
  from \<^verbatim>\<open>[geo_to_key[t] for t in geo_tuples]\<close>, which raises
  \<^verbatim>\<open>KeyError\<close> at the first tuple that is not found in the dictionary.
\<close>

definition build_fact ::
  "'s normalized list \<Rightarrow> (date \<rightharpoonup> int) \<Rightarrow> (string \<rightharpoonup> int) \<Rightarrow>
     (string \<rightharpoonup> int) \<Rightarrow> (geo \<rightharpoonup> int) \<Rightarrow> (string \<rightharpoonup> int) \<Rightarrow> error + 's fact_row list" where
  "build_fact df d2k c2k p2k g2k s2k =
     (case those (map (\<lambda>r. geo_lookup g2k (geo_of r)) df) of
        None \<Rightarrow> Inl KeyError
      | Some region_keys \<Rightarrow>
          Inr (map (\<lambda>(i, r, rk).
                 \<lparr> sales_id = i, fact_row_id = row_id r, fact_order_id = order_id r,
                   order_date_key = Option.bind (map_option fst (order_date r)) d2k,
                   ship_date_key = Option.bind (map_option fst (ship_date r)) d2k,
                   customer_key = c2k (customer_id r),
                   product_key = p2k (product_id r),
                   region_key = rk,
                   ship_mode_key = s2k (ship_mode r),
                   sales_amount = sales r \<rparr>)
               (insert_key (zip df region_keys))))"

text \<open>
  Lines 56 to 70: the bounds of the date dimension and the date lookup.
  \<^verbatim>\<open>
  min_all = min(df["Order Date"].min(), df["Ship Date"].min())
  max_all = max(df["Order Date"].max(), df["Ship Date"].max())
  date_to_key = dict(zip(dim_date["full_date"].dt.date, dim_date["date_key"]))
  \<close>
\<close>

definition min_all :: "(('a::linorder) option, 'p, 's) order_line list \<Rightarrow> 'a option" where
  "min_all df = py_min (series_min (map order_date df)) (series_min (map ship_date df))"

definition max_all :: "(('a::linorder) option, 'p, 's) order_line list \<Rightarrow> 'a option" where
  "max_all df = py_max (series_max (map order_date df)) (series_max (map ship_date df))"

definition date_to_key :: "dim_date_row list \<Rightarrow> (date \<rightharpoonup> int)" where
  "date_to_key dd = py_dict (zip (map (\<lambda>row. fst (full_date row)) dd) (map date_key dd))"

text \<open>
  Lines 73 to 80.  The single-column sorts (\<^verbatim>\<open>sort_values("Customer ID")\<close>
  here, \<^verbatim>\<open>sort_values("Product ID")\<close> below) are modelled by the stable
  \<^const>\<open>sort_key\<close>; the order pandas gives to rows with equal identifiers is not
  relied on in what follows.
  \<^verbatim>\<open>
  dim_customer = (df[["Customer ID", "Customer Name", "Segment"]]
        .drop_duplicates().sort_values("Customer ID").reset_index(drop=True))
  dim_customer.insert(0, "customer_key", range(1, len(dim_customer) + 1))
  cust_to_key = dict(zip(dim_customer["Customer ID"], dim_customer["customer_key"]))
  \<close>
\<close>

definition dim_customer_of ::
  "'s normalized list \<Rightarrow> (int \<times> string \<times> string \<times> string) list" where
  "dim_customer_of df =
     insert_key (sort_key fst
       (drop_duplicates (map (\<lambda>r. (customer_id r, customer_name r, segment r)) df)))"

definition cust_to_key :: "(int \<times> string \<times> string \<times> string) list \<Rightarrow> (string \<rightharpoonup> int)" where
  "cust_to_key dc = py_dict (zip (map (\<lambda>(k, cid, nm, sg). cid) dc) (map fst dc))"

text \<open>
  Lines 83 to 92.
  \<^verbatim>\<open>
  dim_product = (df[["Product ID", "Category", "Sub-Category"]]
        .drop_duplicates().sort_values("Product ID").reset_index(drop=True)
        .rename(columns={"Sub-Category": "sub_category"}))
  dim_product["product_name"] = dim_product["Product ID"].map(mode_name)
  dim_product.insert(0, "product_key", range(1, len(dim_product) + 1))
  prod_to_key = dict(zip(dim_product["Product ID"], dim_product["product_key"]))
  \<close>
\<close>

definition dim_product_of ::
  "'s normalized list \<Rightarrow>
     (int \<times> string \<times> string \<times> string \<times> string option) list" where
  "dim_product_of df =
     map (\<lambda>(k, pid, cat, sub). (k, pid, cat, sub, mode_name df pid))
       (insert_key (sort_key fst
          (drop_duplicates (map (\<lambda>r. (product_id r, category r, sub_category r)) df))))"

definition prod_to_key ::
  "(int \<times> string \<times> string \<times> string \<times> string option) list \<Rightarrow> (string \<rightharpoonup> int)" where
  "prod_to_key dp = py_dict (zip (map (\<lambda>(k, pid, rest). pid) dp) (map fst dp))"

text \<open>
  Lines 95 to 109.
  \<^verbatim>\<open>
  dim_region = (df[geo_cols].drop_duplicates().sort_values(geo_cols).reset_index(drop=True))
  dim_region.insert(0, "region_key", range(1, len(dim_region) + 1))
  geo_to_key = {}
  for row in dim_region.itertuples(index=False):
      region_key = row[0]
      geo_tuple = tuple(row[1:])
      geo_to_key[geo_tuple] = region_key
  \<close>
\<close>

definition dim_region_of :: "'s normalized list \<Rightarrow> (int \<times> geo) list" where
  "dim_region_of df = insert_key (sort_key geo_sort_key (drop_duplicates (map geo_of df)))"

definition geo_to_key :: "(int \<times> geo) list \<Rightarrow> (geo \<rightharpoonup> int)" where
  "geo_to_key dr = fold (\<lambda>row m. m(snd row \<mapsto> fst row)) dr Map.empty"

text \<open>
  Lines 112 to 120.
  \<^verbatim>\<open>
  dim_ship_mode = (df[["Ship Mode"]].drop_duplicates().sort_values("Ship Mode")
        .reset_index(drop=True).rename(columns={"Ship Mode": "ship_mode"}))
  dim_ship_mode.insert(0, "ship_mode_key", range(1, len(dim_ship_mode) + 1))
  ship_to_key = dict(zip(dim_ship_mode["ship_mode"], dim_ship_mode["ship_mode_key"]))
  \<close>
\<close>

definition dim_ship_mode_of :: "'s normalized list \<Rightarrow> (int \<times> string) list" where
  "dim_ship_mode_of df = insert_key (sort (drop_duplicates (map ship_mode df)))"

definition ship_to_key :: "(int \<times> string) list \<Rightarrow> (string \<rightharpoonup> int)" where
  "ship_to_key dsm = py_dict (zip (map snd dsm) (map fst dsm))"

text \<open>
  \<^verbatim>\<open>build_star_schema(df)\<close>, lines 43 to 146: the blocks above in the
  order of the source.  The only places that can raise are
  \<^verbatim>\<open>pd.date_range\<close> (line 59) and the region lookup (line 131).
\<close>

definition build_star_schema ::
  "'s normalized list \<Rightarrow> error + 's star_schema" where
  "build_star_schema df =
     (case date_range (min_all df) (max_all df) of
        Inl e \<Rightarrow> Inl e
      | Inr days \<Rightarrow>
          (case build_fact df (date_to_key (map dim_date_of days))
                  (cust_to_key (dim_customer_of df)) (prod_to_key (dim_product_of df))
                  (geo_to_key (dim_region_of df)) (ship_to_key (dim_ship_mode_of df)) of
             Inl e \<Rightarrow> Inl e
           | Inr fact_rows \<Rightarrow>
               Inr \<lparr> dim_date = map dim_date_of days, dim_customer = dim_customer_of df,
                     dim_product = dim_product_of df, dim_region = dim_region_of df,
                     dim_ship_mode = dim_ship_mode_of df, fact_sales = fact_rows \<rparr>))"

section \<open>The summary\<close>

text \<open>
  \<^verbatim>\<open>groupby(col)["Sales"].sum()\<close>: one entry per distinct key, the keys
  ascending, with the sum of the group's values taken in row order.  The sales are
  floats in the program; the model keeps their type \<open>'s\<close> abstract and takes the
  float operations as parameters: \<open>gsum\<close> is the sum pandas computes for a group,
  \<open>ssum\<close> the sum \<^verbatim>\<open>Series.sum()\<close> computes for a column, and
  \<open>round2\<close> is Python's \<^verbatim>\<open>round(x, 2)\<close>.  Floats that are not NaN are
  linearly ordered, which is all the sorting uses.
\<close>

definition groupby_sum ::
  "('s list \<Rightarrow> 's) \<Rightarrow> ('r \<Rightarrow> 'k::linorder) \<Rightarrow> ('r \<Rightarrow> 's) \<Rightarrow> 'r list \<Rightarrow> ('k \<times> 's) list" where
  "groupby_sum gsum col val df =
     map (\<lambda>k. (k, gsum (map val (filter (\<lambda>r. col r = k) df)))) (sort (remdups (map col df)))"

text \<open>
  \<^verbatim>\<open>sort_values(ascending=False)\<close> of a series: pandas reverses the values,
  sorts them ascending and reverses the result.
\<close>

definition sort_values_desc :: "('k \<times> 's::linorder) list \<Rightarrow> ('k \<times> 's) list" where
  "sort_values_desc xs = rev (sort_key snd (rev xs))"

text \<open>
  \<^verbatim>\<open>dt.to_period("M").astype(str)\<close>: the year in four digits, a hyphen and
  the month in two digits (for the years 1000 to 9999, which hold every timestamp), and
  the text \<^verbatim>\<open>NaT\<close> for a missing date.
\<close>

definition digit_char :: "int \<Rightarrow> char" where
  "digit_char n = char_of (48 + n)"

fun period_str :: "timestamp option \<Rightarrow> string" where
  "period_str None = ''NaT''"
| "period_str (Some ((y, m, d), t)) =
     [digit_char (y div 1000 mod 10), digit_char (y div 100 mod 10),
      digit_char (y div 10 mod 10), digit_char (y mod 10), CHR ''-'',
      digit_char (m div 10 mod 10), digit_char (m mod 10)]"

record 's summary =
  total_sales :: 's
  sales_by_category :: "(string \<times> 's) list"
  top_products :: "(string \<times> 's) list"
  monthly_sales_trend :: "(string \<times> 's) list"

text \<open>
  \<^verbatim>\<open>make_summary_json(df_filtered)\<close>, lines 148 to 173.  A dictionary and a
  list of \<^verbatim>\<open>{"name": .., "sales": ..}\<close> or \<^verbatim>\<open>{"month": .., "sales": ..}\<close>
  objects are both lists of pairs, in insertion order.
\<close>

definition make_summary_json ::
  "('s list \<Rightarrow> 's) \<Rightarrow> ('s list \<Rightarrow> 's) \<Rightarrow> ('s \<Rightarrow> 's) \<Rightarrow>
     ('s::linorder) normalized list \<Rightarrow> 's summary" where
  "make_summary_json ssum gsum round2 df_filtered =
     (let total = ssum (map sales df_filtered);
          by_category = sort_values_desc (groupby_sum gsum category sales df_filtered);
          top = take 10 (sort_values_desc (groupby_sum gsum product_name sales df_filtered));
          monthly = sort_key fst
             (groupby_sum gsum (\<lambda>r. period_str (order_date r)) sales df_filtered)
      in \<lparr> total_sales = round2 total,
           sales_by_category = map (\<lambda>(k, v). (k, round2 v)) by_category,
           top_products = map (\<lambda>(idx, val). (idx, round2 val)) top,
           monthly_sales_trend = map (\<lambda>(mth, v). (mth, round2 v)) monthly \<rparr>)"

section \<open>Example frames\<close>

text \<open>
  Small frames on which the theorems below are instantiated.  \<open>raw_line\<close> is a
  row as read from the file, with its row identifier, order date and postal code;
  \<open>toy_to_datetime\<close> is a date parser that knows two day-first dates, which it reads
  as midnight timestamps.
\<close>

definition raw_line :: "int \<Rightarrow> cell \<Rightarrow> cell \<Rightarrow> (cell, cell, int) order_line" where
  "raw_line i od pc =
     \<lparr> row_id = i, order_id = ''CA-1'', order_date = od,
       ship_date = Val (codepoints ''07/01/2021''),
       ship_mode = ''Standard Class'', customer_id = ''C1'', customer_name = ''Ann Lee'',
       segment = ''Consumer'', country = Some ''United States'', region = Some ''West'',
       state = Some ''California'', city = Some ''Los Angeles'', postal_code = pc,
       product_id = ''P1'', product_name = ''Widget'', category = ''Technology'',
       sub_category = ''Phones'', sales = 10 \<rparr>"

definition toy_to_datetime :: "cell list \<Rightarrow> cell \<Rightarrow> timestamp option" where
  "toy_to_datetime col x =
     (if x = Val (codepoints ''05/01/2021'') then Some ((2021, 1, 5), 0)
      else if x = Val (codepoints ''07/01/2021'') then Some ((2021, 1, 7), 0) else None)"

text \<open>
  \<open>order_row\<close> is a normalized row with its row identifier, order date, ship date,
  customer identifier and name, product identifier and name, category and sales amount.
  \<open>hours h\<close> is the time of day \<open>h\<close> o'clock, in nanoseconds.
\<close>

definition order_row ::
  "int \<Rightarrow> timestamp option \<Rightarrow> timestamp option \<Rightarrow> string \<Rightarrow> string \<Rightarrow> string \<Rightarrow> string \<Rightarrow>
     string \<Rightarrow> 's \<Rightarrow> 's normalized" where
  "order_row i od sd cid cname pid pname cat amount =
     \<lparr> row_id = i, order_id = ''CA-1'', order_date = od, ship_date = sd,
       ship_mode = ''Standard Class'', customer_id = cid, customer_name = cname,
       segment = ''Consumer'', country = Some ''United States'', region = Some ''West'',
       state = Some ''California'', city = Some ''Los Angeles'',
       postal_code = codepoints ''90210'',
       product_id = pid, product_name = pname, category = cat,
       sub_category = ''Phones'', sales = amount \<rparr>"


definition two_names :: "int normalized list" where
  "two_names =
     [order_row 7 (Some ((2021, 1, 30), 0)) (Some ((2021, 2, 2), 0)) ''C1'' ''Al'' ''P1'' ''Widget'' ''Technology'' 10,
      order_row 3 (Some ((2021, 2, 1), 0)) None ''C1'' ''Alice'' ''P1'' ''Widget'' ''Technology'' 5]"

definition no_dates :: "int normalized list" where
  "no_dates =
     [order_row 1 None None ''C1'' ''Al'' ''P1'' ''Widget'' ''Technology'' 10,
      order_row 2 None None ''C2'' ''Bo'' ''P2'' ''Gadget'' ''Technology'' 5]"

definition ship_only :: "int normalized list" where
  "ship_only = [order_row 1 None (Some ((2021, 1, 5), 0)) ''C1'' ''Al'' ''P1'' ''Widget'' ''Technology'' 10]"




definition bob_al :: "int normalized list" where
  "bob_al =
     [order_row 1 (Some ((2021, 1, 5), 0)) (Some ((2021, 1, 5), 0)) ''C1'' ''Bob'' ''P1'' ''Widget'' ''Technology'' 10,
      order_row 2 (Some ((2021, 1, 5), 0)) (Some ((2021, 1, 5), 0)) ''C1'' ''Al'' ''P1'' ''Widget'' ''Technology'' 5]"

section \<open>Dropping duplicates\<close>

text \<open>The mask of duplicates, and the rows it keeps.\<close>

lemma length_duplicated_from: "length (duplicated_from seen ks) = length ks"
  by (induction ks arbitrary: seen) simp_all

lemma loc_not_Nil: "loc_not (duplicated_from seen (map f [])) [] = []"
  by (simp add: loc_not_def)

lemma duplicated_from_set:
  "set seen = set seen' \<Longrightarrow> duplicated_from seen ks = duplicated_from seen' ks"
proof (induction ks arbitrary: seen seen')
  case Nil
  show ?case by simp
next
  case (Cons k ks)
  have "duplicated_from (k # seen) ks = duplicated_from (k # seen') ks"
    by (rule Cons.IH) (simp add: Cons.prems)
  then show ?case using Cons.prems by simp
qed

lemma loc_not_Cons:
  "loc_not (duplicated_from seen (map f (x # xs))) (x # xs) =
     (if f x \<in> set seen then loc_not (duplicated_from seen (map f xs)) xs
      else x # loc_not (duplicated_from (f x # seen) (map f xs)) xs)"
proof (cases "f x \<in> set seen")
  case True
  then have "set (f x # seen) = set seen" by auto
  from duplicated_from_set [OF this] True show ?thesis
    by (simp add: loc_not_def)
next
  case False
  then show ?thesis by (simp add: loc_not_def)
qed

lemma kept_image:
  "f ` set (loc_not (duplicated_from seen (map f xs)) xs) = f ` set xs - set seen"
proof (induction xs arbitrary: seen)
  case Nil
  show ?case by (simp add: loc_not_def)
next
  case (Cons x xs)
  show ?case
    unfolding loc_not_Cons using Cons.IH [of seen] Cons.IH [of "f x # seen"] by auto
qed

lemma kept_subseq: "subseq (loc_not (duplicated_from seen (map f xs)) xs) xs"
proof (induction xs arbitrary: seen)
  case Nil
  show ?case by (simp add: loc_not_def)
next
  case (Cons x xs)
  show ?case
    unfolding loc_not_Cons using Cons.IH [of seen] Cons.IH [of "f x # seen"] by auto
qed

lemma kept_distinct: "distinct (map f (loc_not (duplicated_from seen (map f xs)) xs))"
proof (induction xs arbitrary: seen)
  case Nil
  show ?case by (simp add: loc_not_def)
next
  case (Cons x xs)
  have "f x \<notin> f ` set (loc_not (duplicated_from (f x # seen) (map f xs)) xs)"
    unfolding kept_image by simp
  then show ?case
    unfolding loc_not_Cons using Cons.IH [of seen] Cons.IH [of "f x # seen"] by auto
qed

lemma kept_find:
  "find (\<lambda>y. f y = k) (loc_not (duplicated_from seen (map f xs)) xs) =
     (if k \<in> set seen then None else find (\<lambda>y. f y = k) xs)"
proof (induction xs arbitrary: seen)
  case Nil
  show ?case by (simp add: loc_not_def)
next
  case (Cons x xs)
  show ?case
    unfolding loc_not_Cons using Cons.IH [of seen] Cons.IH [of "f x # seen"] by auto
qed

lemma drop_duplicates_on_image: "f ` set (drop_duplicates_on f xs) = f ` set xs"
  by (simp add: drop_duplicates_on_def duplicated_def kept_image)

lemma drop_duplicates_on_subseq: "subseq (drop_duplicates_on f xs) xs"
  by (simp add: drop_duplicates_on_def duplicated_def kept_subseq)

lemma drop_duplicates_on_distinct: "distinct (map f (drop_duplicates_on f xs))"
  by (simp add: drop_duplicates_on_def duplicated_def kept_distinct)

lemma drop_duplicates_on_find:
  "find (\<lambda>y. f y = k) (drop_duplicates_on f xs) = find (\<lambda>y. f y = k) xs"
  by (simp add: drop_duplicates_on_def duplicated_def kept_find)

lemma set_drop_duplicates: "set (drop_duplicates xs) = set xs"
  using drop_duplicates_on_image [of "\<lambda>r. r" xs] by (simp add: drop_duplicates_def)

lemma distinct_drop_duplicates: "distinct (drop_duplicates xs)"
  using drop_duplicates_on_distinct [of "\<lambda>r. r" xs] by (simp add: drop_duplicates_def)

lemma set_drop_duplicates_on: "set (drop_duplicates_on f xs) \<subseteq> set xs"
  using drop_duplicates_on_subseq [of f xs] by (auto dest: list_emb_set)

section \<open>Calendar arithmetic\<close>

lemma days_in_month_bounds: "28 \<le> days_in_month y m \<and> days_in_month y m \<le> 31"
  by (simp add: days_in_month_def)

lemma days_before_month_1: "days_before_month y 1 = 0"
  by (simp add: days_before_month_def)

lemma days_before_month_step:
  "1 \<le> m \<Longrightarrow> days_before_month y (m + 1) = days_before_month y m + days_in_month y m"
  by (simp add: days_before_month_def upto_rec2)

lemma days_before_month_mono:
  assumes "1 \<le> m" and "m < m'"
  shows "days_before_month y m + days_in_month y m \<le> days_before_month y m'"
  using assms(2)
proof (induction m' rule: int_gr_induct)
  case base
  then show ?case using assms(1) by (simp add: days_before_month_step)
next
  case (step i)
  have "days_before_month y (i + 1) = days_before_month y i + days_in_month y i"
    using step.hyps assms(1) by (intro days_before_month_step) linarith
  moreover have "0 \<le> days_in_month y i"
    using days_in_month_bounds [of y i] by linarith
  ultimately show ?case using step.IH by linarith
qed

lemma days_before_month_13:
  "days_before_month y 13 = 365 + (if is_leap y then 1 else 0)"
  by (simp add: days_before_month_def days_in_month_def upto_rec1 [of 1 12] upto_rec1 [of 2 12] upto_rec1 [of 3 12] upto_rec1 [of 4 12] upto_rec1 [of 5 12] upto_rec1 [of 6 12] upto_rec1 [of 7 12] upto_rec1 [of 8 12] upto_rec1 [of 9 12] upto_rec1 [of 10 12] upto_rec1 [of 11 12])

lemma div_step:
  fixes y k :: int
  assumes k: "0 < k"
  shows "y div k = (y - 1) div k + (if y mod k = 0 then 1 else 0)"
proof (cases "y mod k = 0")
  case True
  then obtain q where q: "y = q * k" by (metis mod_eq_0_iff_dvd dvdE mult.commute)
  have "(q * k - 1) div k = ((q - 1) * k + (k - 1)) div k"
    by (simp add: algebra_simps)
  also have "\<dots> = (q - 1) + (k - 1) div k"
    using k by simp
  also have "(k - 1) div k = 0" using k by simp
  finally show ?thesis using q True k by simp
next
  case False
  have pos: "0 < y mod k" using False k pos_mod_sign [of k y] by linarith
  have lt: "y mod k < k" using k by simp
  have e: "y - 1 = (y div k) * k + (y mod k - 1)" by (simp add: algebra_simps)
  have "(y - 1) div k = ((y div k) * k + (y mod k - 1)) div k"
    by (rule arg_cong [OF e])
  also have "\<dots> = y div k + (y mod k - 1) div k" using k by simp
  also have "(y mod k - 1) div k = 0" using pos lt by simp
  finally show ?thesis using False by simp
qed

lemma days_before_year_step:
  "days_before_year (y + 1) = days_before_year y + 365 + (if is_leap y then 1 else 0)"
proof -
  define A B C where "A = (y - 1) div 4" and "B = (y - 1) div 100" and "C = (y - 1) div 400"
  define p q r where "p \<longleftrightarrow> y mod 4 = 0" and "q \<longleftrightarrow> y mod 100 = 0" and "r \<longleftrightarrow> y mod 400 = 0"
  have a: "y div 4 = A + (if p then 1 else 0)"
    unfolding A_def p_def by (rule div_step) simp
  have b: "y div 100 = B + (if q then 1 else 0)"
    unfolding B_def q_def by (rule div_step) simp
  have c: "y div 400 = C + (if r then 1 else 0)"
    unfolding C_def r_def by (rule div_step) simp
  have rq: "r \<Longrightarrow> q"
    unfolding r_def q_def using mod_mod_cancel [of 100 400 y] by simp
  have qp: "q \<Longrightarrow> p"
    unfolding q_def p_def using mod_mod_cancel [of 4 100 y] by simp
  have new: "days_before_year (y + 1) = y * 365 + y div 4 - y div 100 + y div 400"
    by (simp add: days_before_year_def)
  have old: "days_before_year y = (y - 1) * 365 + A - B + C"
    by (simp add: days_before_year_def A_def B_def C_def)
  have leap: "is_leap y \<longleftrightarrow> p \<and> (\<not> q \<or> r)"
    by (simp add: is_leap_def p_def q_def r_def)
  show ?thesis
    unfolding new old leap a b c using rq qp
    by (cases p; cases q; cases r; simp add: algebra_simps)
qed

lemma days_before_year_mono:
  assumes "y < y'"
  shows "days_before_year (y + 1) \<le> days_before_year y'"
  using assms
proof (induction y' rule: int_gr_induct)
  case base
  show ?case by simp
next
  case (step i)
  show ?case using step.IH days_before_year_step [of i] by (simp split: if_splits)
qed



lemma valid_next_day: "valid_date d \<Longrightarrow> valid_date (next_day d)"
proof (cases d)
  case (fields y m dd)
  assume "valid_date d"
  with fields show ?thesis
    using days_in_month_bounds [of y "m + 1"] days_in_month_bounds [of "y + 1" 1]
    by (auto simp: Let_def)
qed

lemma toordinal_next_day: "valid_date d \<Longrightarrow> toordinal (next_day d) = toordinal d + 1"
proof (cases d)
  case (fields y m dd)
  assume v: "valid_date d"
  show ?thesis
  proof (cases "dd < days_in_month y m")
    case True
    with fields show ?thesis by simp
  next
    case False
    with v fields have dd: "dd = days_in_month y m" and m: "1 \<le> m" "m \<le> 12" by auto
    show ?thesis
    proof (cases "m < 12")
      case True
      with fields dd m show ?thesis
        by (simp add: days_before_month_step days_before_month_1)
    next
      case False
      with m have m12: "m = 12" by simp
      have "days_before_month y 13 = days_before_month y 12 + days_in_month y 12"
        using days_before_month_step [of 12 y] by simp
      with fields dd m12 show ?thesis
        by (simp add: days_before_year_step days_before_month_13 days_before_month_1)
    qed
  qed
qed

lemma day_of_year_le:
  assumes "valid_date (y, m, d)"
  shows "days_before_month y m + d \<le> 365 + (if is_leap y then 1 else 0)"
proof (cases "m = 12")
  case True
  have "days_before_month y 13 = days_before_month y 12 + days_in_month y 12"
    using days_before_month_step [of 12 y] by simp
  with True assms show ?thesis using days_before_month_13 [of y] by simp
next
  case False
  with assms have "1 \<le> m" "m < 13" by auto
  from days_before_month_mono [OF this, of y] assms show ?thesis
    using days_before_month_13 [of y] by simp
qed

lemma days_before_month_nonneg: "0 \<le> days_before_month y m"
proof (cases "1 < m")
  case True
  from days_before_month_mono [of 1 m y] True days_in_month_bounds [of y 1]
  show ?thesis by (simp add: days_before_month_1)
next
  case False
  then show ?thesis by (simp add: days_before_month_def)
qed

lemma toordinal_strict_mono:
  assumes "valid_date a" and "valid_date b" and "a < b"
  shows "toordinal a < toordinal b"
proof -
  obtain y m d where a: "a = (y, m, d)" by (cases a)
  obtain y' m' d' where b: "b = (y', m', d')" by (cases b)
  from assms(3) a b have "y < y' \<or> (y = y' \<and> (m < m' \<or> (m = m' \<and> d < d')))"
    by (auto simp: less_prod_def)
  then consider "y < y'" | "y = y'" "m < m'" | "y = y'" "m = m'" "d < d'"
    by blast
  then show ?thesis
  proof cases
    case 1
    have "toordinal a \<le> days_before_year (y + 1)"
      using day_of_year_le [of y m d] assms(1) a by (simp add: days_before_year_step)
    also have "\<dots> \<le> days_before_year y'" using 1 by (rule days_before_year_mono)
    also have "\<dots> < toordinal b"
      using b assms(2) days_before_month_nonneg [of y' m'] by simp
    finally show ?thesis .
  next
    case 2
    from assms(1) a have "1 \<le> m" "d \<le> days_in_month y m" by auto
    with days_before_month_mono [of m m' y] 2 assms(2) a b show ?thesis by simp
  next
    case 3
    with a b show ?thesis by simp
  qed
qed

lemma toordinal_mono:
  assumes "valid_date a" and "valid_date b" and "a \<le> b"
  shows "toordinal a \<le> toordinal b"
proof (cases "a = b")
  case True
  then show ?thesis by simp
next
  case False
  with assms(3) have "a < b" by simp
  from toordinal_strict_mono [OF assms(1,2) this] show ?thesis by simp
qed

lemma toordinal_inj:
  assumes "valid_date a" and "valid_date b" and "toordinal a = toordinal b"
  shows "a = b"
  using toordinal_strict_mono [OF assms(1,2)] toordinal_strict_mono [OF assms(2,1)] assms(3)
  by (cases a b rule: linorder_cases) auto

lemma length_days_from: "length (days_from n d) = n"
  by (induction n arbitrary: d) simp_all

lemma days_from_valid: "valid_date d \<Longrightarrow> x \<in> set (days_from n d) \<Longrightarrow> valid_date x"
proof (induction n arbitrary: d)
  case 0
  then show ?case by simp
next
  case (Suc n)
  from Suc.prems(2) have "x = d \<or> x \<in> set (days_from n (next_day d))" by simp
  then show ?case
    using Suc.prems(1) Suc.IH [OF valid_next_day [OF Suc.prems(1)]] by blast
qed

lemma map_toordinal_days_from:
  "valid_date d \<Longrightarrow> map toordinal (days_from n d) = [toordinal d..toordinal d + int n - 1]"
proof (induction n arbitrary: d)
  case 0
  show ?case by simp
next
  case (Suc n)
  have "map toordinal (days_from n (next_day d)) = [toordinal d + 1..toordinal d + 1 + int n - 1]"
    using Suc.IH [OF valid_next_day [OF Suc.prems]] toordinal_next_day [OF Suc.prems] by simp
  then show ?case
    using upto_rec1 [of "toordinal d" "toordinal d + int (Suc n) - 1"] by simp
qed

lemma distinct_days_from: "valid_date d \<Longrightarrow> distinct (days_from n d)"
  using distinct_upto map_toordinal_days_from [of d n] by (metis distinct_map)

lemma in_days_from:
  assumes "valid_date lo" and "valid_date d"
    and "toordinal lo \<le> toordinal d" and "toordinal d < toordinal lo + int n"
  shows "d \<in> set (days_from n lo)"
proof -
  have "toordinal d \<in> set (map toordinal (days_from n lo))"
    using assms(3,4) by (simp add: map_toordinal_days_from [OF assms(1)])
  then obtain x where x: "x \<in> set (days_from n lo)" "toordinal x = toordinal d" by auto
  from toordinal_inj [OF days_from_valid [OF assms(1) x(1)] assms(2) x(2)] x(1)
  show ?thesis by simp
qed

lemma days_from_range:
  assumes "valid_date lo" and "x \<in> set (days_from n lo)"
  shows "toordinal lo \<le> toordinal x \<and> toordinal x < toordinal lo + int n"
proof -
  have "toordinal x \<in> set (map toordinal (days_from n lo))" using assms(2) by simp
  then show ?thesis by (simp add: map_toordinal_days_from [OF assms(1)])
qed

lemma sorted_days_from: "valid_date d \<Longrightarrow> sorted_wrt (<) (days_from n d)"
proof (induction n arbitrary: d)
  case 0
  show ?case by simp
next
  case (Suc n)
  have "d < x" if "x \<in> set (days_from n (next_day d))" for x
  proof -
    have vx: "valid_date x"
      using days_from_valid [OF valid_next_day [OF Suc.prems] that] .
    have "toordinal d < toordinal x"
      using days_from_range [OF valid_next_day [OF Suc.prems] that]
        toordinal_next_day [OF Suc.prems] by simp
    then show ?thesis
      using toordinal_mono [OF vx Suc.prems] by (cases "d < x") (auto simp: not_less)
  qed
  then show ?case using Suc.IH [OF valid_next_day [OF Suc.prems]] by simp
qed

section \<open>Postal codes\<close>

lemma codepoints_dot_zero: "codepoints ''.0'' = [46, 48]"
  by (simp add: codepoints_def)

lemma strip_dot_zero:
  assumes "s = [] \<or> \<not> py_isspace (hd s)"
  shows "strip (s @ codepoints ''.0'') = s @ codepoints ''.0''"
proof -
  have front: "dropWhile py_isspace (s @ [46, 48]) = s @ [46, 48]"
  proof (cases s)
    case Nil
    then show ?thesis by (simp add: py_isspace_def)
  next
    case (Cons c cs)
    with assms have "\<not> py_isspace c" by simp
    with Cons show ?thesis by simp
  qed
  have tail_eq: "dropWhile py_isspace (rev (s @ [46, 48])) = rev (s @ [46, 48])"
    by (simp add: py_isspace_def)
  show ?thesis
    unfolding codepoints_dot_zero strip_def front tail_eq by simp
qed

lemma endswith_append: "endswith (s @ suf) suf"
  by (simp add: endswith_def)

text \<open>
  C9.  A missing postal code becomes the string \<^verbatim>\<open>Unknown\<close> (a string,
  never a null), and a value whose text is a number followed by the artifact
  \<^verbatim>\<open>.0\<close> (any text \<open>s\<close> that does not start with a character
  \<^verbatim>\<open>strip\<close> removes, followed by \<^verbatim>\<open>.0\<close>) becomes that text without
  the artifact.
\<close>

theorem clean_postal_spec:
  "clean_postal NA = codepoints ''Unknown'' \<and>
   ((s = [] \<or> \<not> py_isspace (hd s)) \<longrightarrow> clean_postal (Val (s @ codepoints ''.0'')) = s)"
proof -
  have "clean_postal (Val (s @ codepoints ''.0'')) = s" if "s = [] \<or> \<not> py_isspace (hd s)"
    using strip_dot_zero [OF that] endswith_append [of s "codepoints ''.0''"]
    by (simp add: Let_def codepoints_dot_zero)
  then show ?thesis by simp
qed

theorem clean_postal_spec_witness:
  "clean_postal NA = codepoints ''Unknown'' \<and> \<not> py_isspace (hd (codepoints ''90210'')) \<and>
   clean_postal (Val (codepoints ''90210.0'')) = codepoints ''90210''"
  using clean_postal_spec [of "codepoints ''90210''"] by (simp add: py_isspace_def codepoints_def)

text \<open>
  Whitespace around the text is removed first, also a no-break space (U+00A0): the text
  \<^verbatim>\<open>90210.0\<close> after a no-break space and before a blank becomes
  \<^verbatim>\<open>90210\<close>.
\<close>

lemma clean_postal_strips:
  "clean_postal (Val ([0xA0] @ codepoints ''90210.0'' @ [0x20])) = codepoints ''90210''"
  by (simp add: strip_def endswith_def py_isspace_def codepoints_def)

section \<open>Keys, dictionaries and column bounds\<close>

lemma length_insert_key: "length (insert_key rows) = length rows"
  by (simp add: insert_key_def)

lemma map_fst_insert_key: "map fst (insert_key rows) = [1..int (length rows)]"
  by (simp add: insert_key_def)

lemma map_snd_insert_key: "map snd (insert_key rows) = rows"
  by (simp add: insert_key_def)

lemma nth_insert_key: "i < length rows \<Longrightarrow> insert_key rows ! i = (1 + int i, rows ! i)"
  by (simp add: insert_key_def)

lemma py_dict_Nil: "py_dict [] = Map.empty"
  by (simp add: py_dict_def)

lemma py_dict_snoc: "py_dict (kvs @ [(k, v)]) = (py_dict kvs)(k \<mapsto> v)"
  by (simp add: py_dict_def)

lemma py_dict_None: "py_dict kvs k = None \<longleftrightarrow> k \<notin> fst ` set kvs"
proof (induction kvs rule: rev_induct)
  case Nil
  show ?case by (simp add: py_dict_Nil)
next
  case (snoc x xs)
  obtain k' v where x: "x = (k', v)" by (cases x)
  from snoc x show ?case by (cases "k' = k") (simp_all add: py_dict_snoc)
qed

lemma py_dict_last:
  "k \<in> fst ` set kvs \<Longrightarrow>
     py_dict kvs k = Some (snd (last (filter (\<lambda>kv. fst kv = k) kvs)))"
proof (induction kvs rule: rev_induct)
  case Nil
  then show ?case by simp
next
  case (snoc x xs)
  obtain k' v where x: "x = (k', v)" by (cases x)
  show ?case
  proof (cases "k' = k")
    case True
    with x show ?thesis by (simp add: py_dict_snoc)
  next
    case False
    with snoc.prems x have "k \<in> fst ` set xs" by auto
    from snoc.IH [OF this] False x show ?thesis by (simp add: py_dict_snoc)
  qed
qed

lemma py_dict_SomeD: "py_dict kvs k = Some v \<Longrightarrow> (k, v) \<in> set kvs"
proof (induction kvs rule: rev_induct)
  case Nil
  then show ?case by (simp add: py_dict_Nil)
next
  case (snoc x xs)
  obtain k' v' where x: "x = (k', v')" by (cases x)
  from snoc x show ?case by (cases "k' = k") (auto simp: py_dict_snoc)
qed


lemma set_present: "set (List.map_filter (\<lambda>x. x) col) = {d. Some d \<in> set col}"
  by (induction col) (auto split: option.splits)

lemma series_min_None: "series_min col = None \<longleftrightarrow> (\<forall>x\<in>set col. x = None)"
proof (cases "List.map_filter (\<lambda>x. x) col")
  case Nil
  with set_present [of col] have "\<forall>d. Some d \<notin> set col" by simp
  then have "\<forall>x\<in>set col. x = None" by (metis not_Some_eq)
  with Nil show ?thesis by (simp add: series_min_def)
next
  case (Cons d ds)
  with set_present [of col] have "Some d \<in> set col" by auto
  then have "\<not> (\<forall>x\<in>set col. x = None)" by (metis option.distinct(1))
  with Cons show ?thesis by (simp add: series_min_def)
qed

lemma series_max_None: "series_max col = None \<longleftrightarrow> (\<forall>x\<in>set col. x = None)"
proof (cases "List.map_filter (\<lambda>x. x) col")
  case Nil
  with set_present [of col] have "\<forall>d. Some d \<notin> set col" by simp
  then have "\<forall>x\<in>set col. x = None" by (metis not_Some_eq)
  with Nil show ?thesis by (simp add: series_max_def)
next
  case (Cons d ds)
  with set_present [of col] have "Some d \<in> set col" by auto
  then have "\<not> (\<forall>x\<in>set col. x = None)" by (metis option.distinct(1))
  with Cons show ?thesis by (simp add: series_max_def)
qed

lemma series_min_Some:
  assumes "series_min col = Some a"
  shows "Some a \<in> set col \<and> (\<forall>d. Some d \<in> set col \<longrightarrow> a \<le> d)"
proof -
  from assms obtain d ds where ds: "List.map_filter (\<lambda>x. x) col = d # ds" and a: "a = fold min ds d"
    by (auto simp: series_min_def split: list.splits)
  have "a = Min (set (d # ds))" unfolding a by (rule Min.set_eq_fold [symmetric])
  moreover have "set (d # ds) = {d. Some d \<in> set col}" using set_present [of col] ds by simp
  ultimately have a': "a = Min {d. Some d \<in> set col}" by simp
  have fin: "finite {d. Some d \<in> set col}" and ne: "{d. Some d \<in> set col} \<noteq> {}"
    using set_present [of col] ds by (metis List.finite_set, metis list.distinct(1) set_empty)
  from Min_in [OF fin ne] Min_le [OF fin] show ?thesis unfolding a' by auto
qed

lemma series_max_Some:
  assumes "series_max col = Some a"
  shows "Some a \<in> set col \<and> (\<forall>d. Some d \<in> set col \<longrightarrow> d \<le> a)"
proof -
  from assms obtain d ds where ds: "List.map_filter (\<lambda>x. x) col = d # ds" and a: "a = fold max ds d"
    by (auto simp: series_max_def split: list.splits)
  have "a = Max (set (d # ds))" unfolding a by (rule Max.set_eq_fold [symmetric])
  moreover have "set (d # ds) = {d. Some d \<in> set col}" using set_present [of col] ds by simp
  ultimately have a': "a = Max {d. Some d \<in> set col}" by simp
  have fin: "finite {d. Some d \<in> set col}" and ne: "{d. Some d \<in> set col} \<noteq> {}"
    using set_present [of col] ds by (metis List.finite_set, metis list.distinct(1) set_empty)
  from Max_in [OF fin ne] Max_ge [OF fin] show ?thesis unfolding a' by auto
qed

section \<open>Normalization\<close>

text \<open>
  C3.  After \<^verbatim>\<open>load_and_prepare_raw\<close> no two rows agree on every column but
  the row identifier; the result is a subsequence of the parsed and cleaned frame (the
  rows kept stay in input order); and for every value \<open>k\<close> of the columns other
  than the row identifier, the row of the result with these columns is the first row of
  the parsed and cleaned frame with them.  The duplicates are those of the frame after
  date parsing and postal cleaning, so rows that differ only in how the postal code was
  written are duplicates too.
\<close>

theorem load_and_prepare_raw_dedup:
  "distinct (map cols_no_rowid (load_and_prepare_raw to_datetime csv)) \<and>
   subseq (load_and_prepare_raw to_datetime csv) (parse_and_clean to_datetime csv) \<and>
   find (\<lambda>y. cols_no_rowid y = k) (load_and_prepare_raw to_datetime csv) =
     find (\<lambda>y. cols_no_rowid y = k) (parse_and_clean to_datetime csv)"
proof -
  have eq: "load_and_prepare_raw to_datetime csv =
      drop_duplicates_on cols_no_rowid (parse_and_clean to_datetime csv)"
    by (simp add: load_and_prepare_raw_def drop_duplicates_on_def Let_def)
  show ?thesis
    unfolding eq
    using drop_duplicates_on_distinct [of cols_no_rowid "parse_and_clean to_datetime csv"]
      drop_duplicates_on_subseq [of cols_no_rowid "parse_and_clean to_datetime csv"]
      drop_duplicates_on_find [of cols_no_rowid k "parse_and_clean to_datetime csv"]
    by simp
qed


theorem load_and_prepare_raw_dedup_witness:
  "map row_id (load_and_prepare_raw toy_to_datetime
        [raw_line 1 (Val (codepoints ''05/01/2021'')) (Val (codepoints ''90210.0'')),
         raw_line 2 (Val (codepoints ''05/01/2021'')) (Val (codepoints ''90210'')),
         raw_line 3 (Val (codepoints ''bad'')) NA, raw_line 4 NA NA]) = [1, 3] \<and>
   distinct (map cols_no_rowid (load_and_prepare_raw toy_to_datetime
        [raw_line 1 (Val (codepoints ''05/01/2021'')) (Val (codepoints ''90210.0'')),
         raw_line 2 (Val (codepoints ''05/01/2021'')) (Val (codepoints ''90210'')),
         raw_line 3 (Val (codepoints ''bad'')) NA, raw_line 4 NA NA]))"
  using load_and_prepare_raw_dedup [of toy_to_datetime
        "[raw_line 1 (Val (codepoints ''05/01/2021'')) (Val (codepoints ''90210.0'')),
         raw_line 2 (Val (codepoints ''05/01/2021'')) (Val (codepoints ''90210'')),
         raw_line 3 (Val (codepoints ''bad'')) NA, raw_line 4 NA NA]"]
  by (simp add: load_and_prepare_raw_def parse_and_clean_def raw_line_def toy_to_datetime_def
      duplicated_def loc_not_def cols_no_rowid_def strip_def endswith_def py_isspace_def
      codepoints_def)

section \<open>The steps of the build\<close>

lemma in_set_mapI: "x \<in> set xs \<Longrightarrow> f x = y \<Longrightarrow> y \<in> set (map f xs)"
  by auto

lemma in_set_mapD: "y \<in> set (map f xs) \<Longrightarrow> \<exists>x\<in>set xs. f x = y"
  by auto

lemma those_Some_iff: "those xs = Some ys \<longleftrightarrow> xs = map Some ys"
proof (induction xs arbitrary: ys)
  case Nil
  show ?case by auto
next
  case (Cons x xs)
  show ?case
  proof (cases x)
    case None
    then show ?thesis by auto
  next
    case (Some y)
    have "those (x # xs) = Some ys \<longleftrightarrow> (\<exists>zs. those xs = Some zs \<and> ys = y # zs)"
      using Some by (cases "those xs") auto
    also have "\<dots> \<longleftrightarrow> (\<exists>zs. xs = map Some zs \<and> ys = y # zs)"
      by (simp add: Cons.IH)
    also have "\<dots> \<longleftrightarrow> x # xs = map Some ys"
      using Some by (cases ys) auto
    finally show ?thesis .
  qed
qed

lemma those_None_iff: "those xs = None \<longleftrightarrow> None \<in> set xs"
proof (induction xs)
  case Nil
  show ?case by simp
next
  case (Cons x xs)
  then show ?case by (cases x) (auto split: option.splits)
qed



lemma build_fact_rows:
  assumes "build_fact df d2k c2k p2k g2k s2k = Inr fs"
  shows "length fs = length df"
    and "i < length df \<Longrightarrow> fs ! i =
      \<lparr> sales_id = 1 + int i, fact_row_id = row_id (df ! i), fact_order_id = order_id (df ! i),
        order_date_key = Option.bind (map_option fst (order_date (df ! i))) d2k,
        ship_date_key = Option.bind (map_option fst (ship_date (df ! i))) d2k,
        customer_key = c2k (customer_id (df ! i)),
        product_key = p2k (product_id (df ! i)),
        region_key = the (geo_lookup g2k (geo_of (df ! i))),
        ship_mode_key = s2k (ship_mode (df ! i)),
        sales_amount = sales (df ! i) \<rparr>"
    and "i < length df \<Longrightarrow> geo_lookup g2k (geo_of (df ! i)) \<noteq> None"
proof -
  from assms obtain rks where rks: "those (map (\<lambda>r. geo_lookup g2k (geo_of r)) df) = Some rks"
    by (auto simp: build_fact_def split: option.splits)
  then have m: "map (\<lambda>r. geo_lookup g2k (geo_of r)) df = map Some rks" by (simp add: those_Some_iff)
  then have len: "length rks = length df" by (metis length_map)
  have nth_rk: "geo_lookup g2k (geo_of (df ! i)) = Some (rks ! i)" if "i < length df" for i
    using arg_cong [OF m, of "\<lambda>l. l ! i"] that len by simp
  from assms rks have fs: "fs = map (\<lambda>(i, r, rk).
                 \<lparr> sales_id = i, fact_row_id = row_id r, fact_order_id = order_id r,
                   order_date_key = Option.bind (map_option fst (order_date r)) d2k,
                   ship_date_key = Option.bind (map_option fst (ship_date r)) d2k,
                   customer_key = c2k (customer_id r),
                   product_key = p2k (product_id r),
                   region_key = rk,
                   ship_mode_key = s2k (ship_mode r),
                   sales_amount = sales r \<rparr>)
               (insert_key (zip df rks))"
    by (simp add: build_fact_def)
  show "length fs = length df" by (simp add: fs length_insert_key len)
  show "fs ! i = \<lparr> sales_id = 1 + int i, fact_row_id = row_id (df ! i), fact_order_id = order_id (df ! i),
        order_date_key = Option.bind (map_option fst (order_date (df ! i))) d2k,
        ship_date_key = Option.bind (map_option fst (ship_date (df ! i))) d2k,
        customer_key = c2k (customer_id (df ! i)),
        product_key = p2k (product_id (df ! i)),
        region_key = the (geo_lookup g2k (geo_of (df ! i))),
        ship_mode_key = s2k (ship_mode (df ! i)),
        sales_amount = sales (df ! i) \<rparr>" if "i < length df"
    using that len by (simp add: fs length_insert_key nth_insert_key nth_rk)
  show "geo_lookup g2k (geo_of (df ! i)) \<noteq> None" if "i < length df"
    using nth_rk [OF that] by simp
qed

lemma build_star_schema_Inr:
  assumes "build_star_schema df = Inr s"
  obtains days where "date_range (min_all df) (max_all df) = Inr days"
    and "build_fact df (date_to_key (map dim_date_of days))
           (cust_to_key (dim_customer_of df)) (prod_to_key (dim_product_of df))
           (geo_to_key (dim_region_of df)) (ship_to_key (dim_ship_mode_of df)) = Inr (fact_sales s)"
    and "dim_date s = map dim_date_of days" and "dim_customer s = dim_customer_of df"
    and "dim_product s = dim_product_of df" and "dim_region s = dim_region_of df"
    and "dim_ship_mode s = dim_ship_mode_of df"
  using assms by (auto simp: build_star_schema_def split: sum.splits)

lemma min_all_Some:
  assumes "min_all df = Some lo"
  shows "(\<exists>r\<in>set df. order_date r = Some lo \<or> ship_date r = Some lo) \<and>
         (\<forall>r\<in>set df. \<forall>d. order_date r = Some d \<or> ship_date r = Some d \<longrightarrow> lo \<le> d) \<and>
         (\<exists>r\<in>set df. order_date r \<noteq> None)"
proof (cases "series_min (map order_date df)")
  case None
  with assms show ?thesis by (simp add: min_all_def py_min_def)
next
  case (Some a)
  note a = series_min_Some [OF Some]
  from a obtain ra where ra: "ra \<in> set df" "order_date ra = Some a"
    using in_set_mapD [of "Some a" order_date df] by blast
  have a_le: "a \<le> d" if "r \<in> set df" "order_date r = Some d" for r d
  proof -
    from that have "Some d \<in> set (map order_date df)" by (metis in_set_mapI)
    with a show ?thesis by blast
  qed
  have ex: "\<exists>r\<in>set df. order_date r \<noteq> None" using ra by (metis option.distinct(1))
  show ?thesis
  proof (cases "series_min (map ship_date df)")
    case None
    then have no_ship: "ship_date r = None" if "r \<in> set df" for r
      using that by (simp add: series_min_None)
    from assms Some None have lo: "lo = a" by (simp add: min_all_def py_min_def)
    have "lo \<le> d" if "r \<in> set df" "order_date r = Some d \<or> ship_date r = Some d" for r d
      using that a_le no_ship lo by (metis option.distinct(1))
    then show ?thesis using ra ex lo by blast
  next
    case b: (Some b)
    note b' = series_min_Some [OF b]
    from b' obtain rb where rb: "rb \<in> set df" "ship_date rb = Some b"
      using in_set_mapD [of "Some b" ship_date df] by blast
    have b_le: "b \<le> d" if "r \<in> set df" "ship_date r = Some d" for r d
    proof -
      from that have "Some d \<in> set (map ship_date df)" by (metis in_set_mapI)
      with b' show ?thesis by blast
    qed
    from assms Some b have "lo = (if b < a then b else a)"
      by (simp add: min_all_def py_min_def split: if_splits)
    then have lo: "lo = min a b" by (auto simp: min_def)
    have "lo \<le> d" if "r \<in> set df" "order_date r = Some d \<or> ship_date r = Some d" for r d
    proof -
      from that a_le b_le have "a \<le> d \<or> b \<le> d" by blast
      then show ?thesis unfolding lo by (simp add: min_le_iff_disj)
    qed
    moreover have "\<exists>r\<in>set df. order_date r = Some lo \<or> ship_date r = Some lo"
    proof (cases "a \<le> b")
      case True
      then have "min a b = a" by (simp add: min_def)
      with ra show ?thesis unfolding lo by metis
    next
      case False
      then have "min a b = b" by (simp add: min_def)
      with rb show ?thesis unfolding lo by metis
    qed
    ultimately show ?thesis using ex by blast
  qed
qed

lemma max_all_Some:
  assumes "max_all df = Some hi"
  shows "(\<exists>r\<in>set df. order_date r = Some hi \<or> ship_date r = Some hi) \<and>
         (\<forall>r\<in>set df. \<forall>d. order_date r = Some d \<or> ship_date r = Some d \<longrightarrow> d \<le> hi)"
proof (cases "series_max (map order_date df)")
  case None
  with assms show ?thesis by (simp add: max_all_def py_max_def)
next
  case (Some a)
  note a = series_max_Some [OF Some]
  from a obtain ra where ra: "ra \<in> set df" "order_date ra = Some a"
    using in_set_mapD [of "Some a" order_date df] by blast
  have a_le: "d \<le> a" if "r \<in> set df" "order_date r = Some d" for r d
  proof -
    from that have "Some d \<in> set (map order_date df)" by (metis in_set_mapI)
    with a show ?thesis by blast
  qed
  show ?thesis
  proof (cases "series_max (map ship_date df)")
    case None
    then have no_ship: "ship_date r = None" if "r \<in> set df" for r
      using that by (simp add: series_max_None)
    from assms Some None have hi: "hi = a" by (simp add: max_all_def py_max_def)
    have "d \<le> hi" if "r \<in> set df" "order_date r = Some d \<or> ship_date r = Some d" for r d
      using that a_le no_ship hi by (metis option.distinct(1))
    then show ?thesis using ra hi by blast
  next
    case b: (Some b)
    note b' = series_max_Some [OF b]
    from b' obtain rb where rb: "rb \<in> set df" "ship_date rb = Some b"
      using in_set_mapD [of "Some b" ship_date df] by blast
    have b_le: "d \<le> b" if "r \<in> set df" "ship_date r = Some d" for r d
    proof -
      from that have "Some d \<in> set (map ship_date df)" by (metis in_set_mapI)
      with b' show ?thesis by blast
    qed
    from assms Some b have "hi = (if a < b then b else a)"
      by (simp add: max_all_def py_max_def split: if_splits)
    then have hi: "hi = max a b" by (auto simp: max_def)
    have "d \<le> hi" if "r \<in> set df" "order_date r = Some d \<or> ship_date r = Some d" for r d
    proof -
      from that a_le b_le have "d \<le> a \<or> d \<le> b" by blast
      then show ?thesis unfolding hi by (simp add: le_max_iff_disj)
    qed
    moreover have "\<exists>r\<in>set df. order_date r = Some hi \<or> ship_date r = Some hi"
    proof (cases "a \<le> b")
      case True
      then have "max a b = b" by (simp add: max_def)
      with rb show ?thesis unfolding hi by metis
    next
      case False
      then have "max a b = a" by (simp add: max_def)
      with ra show ?thesis unfolding hi by metis
    qed
    ultimately show ?thesis by blast
  qed
qed

lemma min_all_None_iff: "min_all df = None \<longleftrightarrow> (\<forall>r\<in>set df. order_date r = None)"
proof (cases "series_min (map order_date df)")
  case None
  then have "\<forall>r\<in>set df. order_date r = None"
    using series_min_None [of "map order_date df"] by simp
  with None show ?thesis by (simp add: min_all_def py_min_def)
next
  case (Some a)
  then have ne: "\<not> (\<forall>r\<in>set df. order_date r = None)"
    using series_min_None [of "map order_date df"] by simp
  have "\<exists>lo. min_all df = Some lo"
  proof (cases "series_min (map ship_date df)")
    case None
    with Some show ?thesis by (simp add: min_all_def py_min_def)
  next
    case b: (Some b)
    with Some have "min_all df = Some (if b < a then b else a)"
      by (simp add: min_all_def py_min_def)
    then show ?thesis by blast
  qed
  with ne show ?thesis by (metis option.distinct(1))
qed

lemma date_range_Inr:
  assumes "date_range a b = Inr stamps"
  obtains lo hi where "a = Some lo" and "b = Some hi"
    and "stamps = map (\<lambda>d. (d, snd lo))
           (days_from (nat ((ts_value hi - ts_value lo) div day_ns + 1)) (fst lo))"
  using assms by (cases a; cases b) simp_all

section \<open>Lookups\<close>

lemma zip_map_same: "zip (map f xs) (map g xs) = map (\<lambda>x. (f x, g x)) xs"
  by (induction xs) simp_all

lemma py_dict_table:
  "py_dict (zip (map kf rows) (map vf rows)) k =
     (if k \<in> kf ` set rows then Some (vf (last (filter (\<lambda>row. kf row = k) rows))) else None)"
proof (cases "k \<in> kf ` set rows")
  case False
  then have "k \<notin> fst ` set (map (\<lambda>x. (kf x, vf x)) rows)" by (auto simp: image_iff)
  with False show ?thesis by (simp add: zip_map_same py_dict_None)
next
  case True
  then have in_dom: "k \<in> fst ` set (map (\<lambda>x. (kf x, vf x)) rows)" by (auto simp: image_iff)
  from True have ne: "filter (\<lambda>row. kf row = k) rows \<noteq> []"
    by (auto simp: filter_empty_conv)
  have "filter (\<lambda>kv. fst kv = k) (map (\<lambda>x. (kf x, vf x)) rows) =
        map (\<lambda>x. (kf x, vf x)) (filter (\<lambda>row. kf row = k) rows)"
    by (simp add: filter_map comp_def)
  then have "snd (last (filter (\<lambda>kv. fst kv = k) (map (\<lambda>x. (kf x, vf x)) rows))) =
        vf (last (filter (\<lambda>row. kf row = k) rows))"
    using ne by (simp add: last_map)
  with py_dict_last [OF in_dom] True show ?thesis by (simp add: zip_map_same)
qed

lemma last_filter_in:
  "filter P xs \<noteq> [] \<Longrightarrow> last (filter P xs) \<in> set xs \<and> P (last (filter P xs))"
  using last_in_set [of "filter P xs"] by auto

lemma full_date_dim_date_of: "full_date (dim_date_of x) = x"
  by (cases x rule: dim_date_of.cases) simp

lemma date_key_dim_date_of: "date_key (dim_date_of (d, t)) = ymd_key d"
  by (cases d) simp

lemma date_key_of_full_date:
  "date_key (dim_date_of x) = ymd_key (fst (full_date (dim_date_of x)))"
  by (cases x rule: dim_date_of.cases) simp

lemma ymd_key_strict_mono:
  assumes "valid_date a" and "valid_date b" and "a < b"
  shows "ymd_key a < ymd_key b"
proof -
  obtain y m d where a: "a = (y, m, d)" by (cases a)
  obtain y' m' d' where b: "b = (y', m', d')" by (cases b)
  from assms(1) a days_in_month_bounds [of y m]
  have va: "1 \<le> m" "m \<le> 12" "1 \<le> d" "d \<le> 31" by auto
  from assms(2) b days_in_month_bounds [of y' m']
  have vb: "1 \<le> m'" "m' \<le> 12" "1 \<le> d'" "d' \<le> 31" by auto
  from assms(3) a b have "y < y' \<or> (y = y' \<and> (m < m' \<or> (m = m' \<and> d < d')))"
    by (auto simp: less_prod_def)
  then show ?thesis using va vb unfolding a b ymd_key.simps by linarith
qed

lemma dim_date_of_stamps:
  "map (\<lambda>row. fst (full_date row)) (map dim_date_of (map (\<lambda>d. (d, t)) days)) = days"
  "map date_key (map dim_date_of (map (\<lambda>d. (d, t)) days)) = map ymd_key days"
  by (simp_all add: comp_def full_date_dim_date_of date_key_dim_date_of)


section \<open>The days of the date dimension\<close>

lemma day_ns_pos: "0 < day_ns"
  by (simp add: day_ns_def)

lemma div_day:
  fixes D p q a b :: int
  assumes "0 < D" and "0 \<le> a" and "a < D" and "0 \<le> b" and "b < D"
  shows "(q * D + b - (p * D + a)) div D = q - p - (if b < a then 1 else 0)"
proof (cases "b < a")
  case False
  have e: "q * D + b - (p * D + a) = (q - p) * D + (b - a)" by (simp add: algebra_simps)
  have z: "(b - a) div D = 0"
    by (rule div_pos_pos_trivial) (use False assms in linarith)+
  have "((q - p) * D + (b - a)) div D = (q - p) + (b - a) div D"
    by (rule div_mult_self3) (use assms(1) in simp)
  then show ?thesis unfolding e z using False by simp
next
  case True
  have e: "q * D + b - (p * D + a) = (q - p - 1) * D + (b - a + D)" by (simp add: algebra_simps)
  have z: "(b - a + D) div D = 0"
    by (rule div_pos_pos_trivial) (use True assms in linarith)+
  have "((q - p - 1) * D + (b - a + D)) div D = (q - p - 1) + (b - a + D) div D"
    by (rule div_mult_self3) (use assms(1) in simp)
  then show ?thesis unfolding e z using True by simp
qed

lemma lex_le_fst:
  fixes a b :: "'a::linorder \<times> 'b::linorder"
  shows "a \<le> b \<Longrightarrow> fst a \<le> fst b"
  by (auto simp: less_eq_prod_def)

lemma lex_le_snd:
  fixes a b :: "'a::linorder \<times> 'b::linorder"
  shows "a \<le> b \<Longrightarrow> fst a = fst b \<Longrightarrow> snd a \<le> snd b"
  by (auto simp: less_eq_prod_def)

lemma valid_ts_iff: "valid_ts x \<longleftrightarrow> valid_date (fst x) \<and> 0 \<le> snd x \<and> snd x < day_ns"
  by (cases x) simp

lemma ts_value_eq: "ts_value x = toordinal (fst x) * day_ns + snd x"
  by (cases x) simp

lemma toordinal_le_iff:
  assumes "valid_date a" and "valid_date b"
  shows "toordinal a \<le> toordinal b \<longleftrightarrow> a \<le> b"
proof
  assume le: "toordinal a \<le> toordinal b"
  show "a \<le> b"
  proof (rule ccontr)
    assume "\<not> a \<le> b"
    then have "b < a" by simp
    from toordinal_strict_mono [OF assms(2,1) this] le show False by simp
  qed
next
  assume "a \<le> b"
  then show "toordinal a \<le> toordinal b" by (rule toordinal_mono [OF assms])
qed

lemma set_days_from:
  assumes "valid_date lo"
  shows "set (days_from n lo) =
           {d. valid_date d \<and> toordinal lo \<le> toordinal d \<and> toordinal d < toordinal lo + int n}"
proof (intro set_eqI iffI)
  fix x
  assume x: "x \<in> set (days_from n lo)"
  from days_from_valid [OF assms x] days_from_range [OF assms x]
  show "x \<in> {d. valid_date d \<and> toordinal lo \<le> toordinal d \<and> toordinal d < toordinal lo + int n}"
    by simp
next
  fix x
  assume "x \<in> {d. valid_date d \<and> toordinal lo \<le> toordinal d \<and> toordinal d < toordinal lo + int n}"
  then have "valid_date x" "toordinal lo \<le> toordinal x" "toordinal x < toordinal lo + int n"
    by simp_all
  from in_days_from [OF assms this] show "x \<in> set (days_from n lo)" .
qed

text \<open>
  The number of steps of 24 hours from \<open>lo\<close> that do not pass \<open>hi\<close>: the days
  from the day of \<open>lo\<close> to the day of \<open>hi\<close>, less one when \<open>hi\<close> is earlier
  in its day than \<open>lo\<close> is in its own.
\<close>

lemma range_count:
  assumes lo: "valid_ts lo" and hi: "valid_ts hi" and le: "lo \<le> hi"
  shows "int (nat ((ts_value hi - ts_value lo) div day_ns + 1)) =
           toordinal (fst hi) - toordinal (fst lo) + 1 - (if snd hi < snd lo then 1 else 0)"
proof -
  from lo hi have v: "valid_date (fst lo)" "valid_date (fst hi)"
    and t: "0 \<le> snd lo" "snd lo < day_ns" "0 \<le> snd hi" "snd hi < day_ns"
    by (simp_all add: valid_ts_iff)
  have d: "(ts_value hi - ts_value lo) div day_ns =
      toordinal (fst hi) - toordinal (fst lo) - (if snd hi < snd lo then 1 else 0)"
    unfolding ts_value_eq by (rule div_day [OF day_ns_pos t])
  have ord: "toordinal (fst lo) \<le> toordinal (fst hi)"
    using lex_le_fst [OF le] by (rule toordinal_mono [OF v])
  have "0 \<le> toordinal (fst hi) - toordinal (fst lo) + 1 - (if snd hi < snd lo then 1 else 0)"
  proof (cases "snd hi < snd lo")
    case False
    then show ?thesis using ord by simp
  next
    case True
    have "fst lo \<noteq> fst hi"
    proof
      assume "fst lo = fst hi"
      from lex_le_snd [OF le this] True show False by simp
    qed
    with lex_le_fst [OF le] have "fst lo < fst hi" by simp
    from toordinal_strict_mono [OF v this] show ?thesis by simp
  qed
  then show ?thesis unfolding d by simp
qed

lemma build_dates:
  assumes lo: "min_all df = Some lo" and hi: "max_all df = Some hi"
    and valid: "\<forall>r\<in>set df. \<forall>x. order_date r = Some x \<or> ship_date r = Some x \<longrightarrow> valid_ts x"
  shows "\<exists>days. date_range (min_all df) (max_all df) = Inr (map (\<lambda>d. (d, snd lo)) days) \<and>
           int (length days) =
             toordinal (fst hi) - toordinal (fst lo) + 1 - (if snd hi < snd lo then 1 else 0) \<and>
           sorted_wrt (<) days \<and>
           set days = {d. valid_date d \<and> fst lo \<le> d \<and> d \<le> fst hi \<and>
                          \<not> (d = fst hi \<and> snd hi < snd lo)} \<and>
           (\<forall>r\<in>set df. \<forall>x. order_date r = Some x \<or> ship_date r = Some x \<longrightarrow>
              lo \<le> x \<and> x \<le> hi)"
proof -
  define n where "n = nat ((ts_value hi - ts_value lo) div day_ns + 1)"
  define days where "days = days_from n (fst lo)"
  note l = min_all_Some [OF lo] and h = max_all_Some [OF hi]
  from l valid have vlo: "valid_ts lo" by blast
  from h valid have vhi: "valid_ts hi" by blast
  from l h have between:
    "\<forall>r\<in>set df. \<forall>x. order_date r = Some x \<or> ship_date r = Some x \<longrightarrow> lo \<le> x \<and> x \<le> hi"
    by blast
  from l between have le: "lo \<le> hi" by blast
  have n: "int n = toordinal (fst hi) - toordinal (fst lo) + 1 - (if snd hi < snd lo then 1 else 0)"
    unfolding n_def by (rule range_count [OF vlo vhi le])
  from vlo vhi have v: "valid_date (fst lo)" "valid_date (fst hi)"
    by (simp_all add: valid_ts_iff)
  have dr: "date_range (min_all df) (max_all df) = Inr (map (\<lambda>d. (d, snd lo)) days)"
    unfolding lo hi days_def n_def by simp
  have len: "int (length days) =
      toordinal (fst hi) - toordinal (fst lo) + 1 - (if snd hi < snd lo then 1 else 0)"
    unfolding days_def length_days_from by (rule n)
  have srt: "sorted_wrt (<) days"
    unfolding days_def by (rule sorted_days_from [OF v(1)])
  have set_days: "set days = {d. valid_date d \<and> fst lo \<le> d \<and> d \<le> fst hi \<and>
                          \<not> (d = fst hi \<and> snd hi < snd lo)}"
  proof (intro set_eqI iffI)
    fix x
    assume "x \<in> set days"
    then have x: "valid_date x" "toordinal (fst lo) \<le> toordinal x"
      "toordinal x < toordinal (fst lo) + int n"
      unfolding days_def set_days_from [OF v(1)] by simp_all
    from x(2) have a: "fst lo \<le> x" using toordinal_le_iff [OF v(1) x(1)] by simp
    from x(3) n have b: "toordinal x \<le> toordinal (fst hi) - (if snd hi < snd lo then 1 else 0)"
      by (simp split: if_splits)
    then have "toordinal x \<le> toordinal (fst hi)" by (simp split: if_splits)
    then have c: "x \<le> fst hi" using toordinal_le_iff [OF x(1) v(2)] by simp
    have "\<not> (x = fst hi \<and> snd hi < snd lo)" using b by auto
    with x(1) a c
    show "x \<in> {d. valid_date d \<and> fst lo \<le> d \<and> d \<le> fst hi \<and> \<not> (d = fst hi \<and> snd hi < snd lo)}"
      by simp
  next
    fix x
    assume "x \<in> {d. valid_date d \<and> fst lo \<le> d \<and> d \<le> fst hi \<and> \<not> (d = fst hi \<and> snd hi < snd lo)}"
    then have x: "valid_date x" "fst lo \<le> x" "x \<le> fst hi" "\<not> (x = fst hi \<and> snd hi < snd lo)"
      by simp_all
    have a: "toordinal (fst lo) \<le> toordinal x"
      using x(2) toordinal_le_iff [OF v(1) x(1)] by simp
    have "toordinal x < toordinal (fst lo) + int n"
    proof (cases "snd hi < snd lo")
      case False
      with x(3) toordinal_le_iff [OF x(1) v(2)] n show ?thesis by simp
    next
      case True
      with x(4) have "x \<noteq> fst hi" by simp
      with x(3) have "x < fst hi" by simp
      from toordinal_strict_mono [OF x(1) v(2) this] n True show ?thesis by simp
    qed
    with x(1) a show "x \<in> set days" unfolding days_def set_days_from [OF v(1)] by simp
  qed
  show ?thesis
    apply (rule exI [of _ days])
    apply (intro conjI)
        apply (rule dr)
       apply (rule len)
      apply (rule srt)
     apply (rule set_days)
    apply (rule between)
    done
qed


lemma dim_date_keys_sorted:
  assumes dr: "date_range (min_all df) (max_all df) = Inr stamps"
    and valid: "\<forall>r\<in>set df. \<forall>x. order_date r = Some x \<or> ship_date r = Some x \<longrightarrow> valid_ts x"
  shows "sorted_wrt (<) (map date_key (map dim_date_of stamps))"
proof -
  from dr obtain lo hi where lo: "min_all df = Some lo" and hi: "max_all df = Some hi"
    by (rule date_range_Inr)
  from build_dates [OF lo hi valid] obtain days where
    dr': "date_range (min_all df) (max_all df) = Inr (map (\<lambda>d. (d, snd lo)) days)"
    and srt: "sorted_wrt (<) days"
    and set_days: "set days = {d. valid_date d \<and> fst lo \<le> d \<and> d \<le> fst hi \<and>
                          \<not> (d = fst hi \<and> snd hi < snd lo)}"
    by blast
  from dr dr' have st: "stamps = map (\<lambda>d. (d, snd lo)) days" by simp
  have "sorted_wrt (\<lambda>a b. ymd_key a < ymd_key b) days"
  proof (rule sorted_wrt_mono_rel [OF _ srt])
    fix a b
    assume "a \<in> set days" "b \<in> set days" "a < b"
    then show "ymd_key a < ymd_key b"
      unfolding set_days by (intro ymd_key_strict_mono) simp_all
  qed
  then show ?thesis unfolding st dim_date_of_stamps by (simp add: sorted_wrt_map)
qed

section \<open>The date range\<close>

text \<open>
  C7.  When every order date and every ship date is missing, the build fails: the bounds
  of the date range are NaT and \<^verbatim>\<open>pd.date_range\<close> raises \<^verbatim>\<open>ValueError\<close>,
  before any dimension or fact table is made.
\<close>

theorem build_fails_without_dates:
  "(\<forall>r\<in>set df. order_date r = None \<and> ship_date r = None) \<Longrightarrow>
     build_star_schema df = Inl ValueError"
proof -
  assume "\<forall>r\<in>set df. order_date r = None \<and> ship_date r = None"
  then have "min_all df = None" by (simp add: min_all_None_iff)
  then show ?thesis by (simp add: build_star_schema_def)
qed

theorem build_fails_without_dates_witness:
  "map order_date no_dates = [None, None] \<and> map ship_date no_dates = [None, None] \<and>
   build_star_schema no_dates = Inl ValueError"
proof -
  have h: "\<forall>r\<in>set no_dates. order_date r = None \<and> ship_date r = None"
    by (simp add: no_dates_def order_row_def)
  have "map order_date no_dates = [None, None]" "map ship_date no_dates = [None, None]"
    by (simp_all add: no_dates_def order_row_def)
  with build_fails_without_dates [OF h] show ?thesis by simp
qed

text \<open>
  C4.  The date dimension is meant to cover the order dates and the ship dates, but the
  bounds are taken with Python's \<^verbatim>\<open>min\<close> and \<^verbatim>\<open>max\<close>, whose first
  argument wins when a comparison with NaT is false.  A frame whose order dates are all
  missing and that has a valid ship date therefore gets NaT bounds and the build raises
  \<^verbatim>\<open>ValueError\<close>, although the frame has a valid date.
\<close>

theorem ship_dates_alone_fail: "build_star_schema ship_only = Inl ValueError"
  by code_simp

section \<open>Surrogate keys\<close>

lemma sorted_wrt_less_sort_distinct:
  "distinct xs \<Longrightarrow> sorted_wrt (<) (sort xs)"
  by (simp add: strict_sorted_iff)

lemma build_dims_keys:
  "map fst (dim_customer_of df) = [1..int (length (dim_customer_of df))]"
  "map fst (dim_product_of df) = [1..int (length (dim_product_of df))]"
  "map fst (dim_region_of df) = [1..int (length (dim_region_of df))]"
  "map fst (dim_ship_mode_of df) = [1..int (length (dim_ship_mode_of df))]"
proof -
  show "map fst (dim_customer_of df) = [1..int (length (dim_customer_of df))]"
    by (simp add: dim_customer_of_def map_fst_insert_key length_insert_key)
  show "map fst (dim_region_of df) = [1..int (length (dim_region_of df))]"
    by (simp add: dim_region_of_def map_fst_insert_key length_insert_key)
  show "map fst (dim_ship_mode_of df) = [1..int (length (dim_ship_mode_of df))]"
    by (simp add: dim_ship_mode_of_def map_fst_insert_key length_insert_key)
  have "fst \<circ> (\<lambda>(k :: int, pid, cat :: string, sub :: string). (k, pid, cat, sub, mode_name df pid)) = fst"
    by (auto simp: fun_eq_iff)
  then show "map fst (dim_product_of df) = [1..int (length (dim_product_of df))]"
    by (simp add: dim_product_of_def map_fst_insert_key length_insert_key)
qed

lemma dim_customer_rows:
  "map snd (dim_customer_of df) =
     sort_key fst (drop_duplicates (map (\<lambda>r. (customer_id r, customer_name r, segment r)) df))"
  by (simp add: dim_customer_of_def map_snd_insert_key)

lemma dim_product_rows:
  "map (\<lambda>(k, pid, cat, sub, nm). (pid, cat, sub)) (dim_product_of df) =
     sort_key fst (drop_duplicates (map (\<lambda>r. (product_id r, category r, sub_category r)) df))"
proof -
  have "(\<lambda>(k, pid, cat, sub, nm). (pid, cat, sub)) \<circ>
          (\<lambda>(k :: int, pid, cat :: string, sub :: string). (k, pid, cat, sub, mode_name df pid)) = snd"
    by (auto simp: fun_eq_iff)
  then show ?thesis by (simp add: dim_product_of_def map_snd_insert_key)
qed


lemma dim_customer_sorted: "sorted (map (\<lambda>(k, cid, nm, sg). cid) (dim_customer_of df))"
proof -
  have "(\<lambda>(k, cid, nm, sg). cid) = fst \<circ> (snd :: int \<times> string \<times> string \<times> string \<Rightarrow> _)"
    by (auto simp: fun_eq_iff)
  then have "map (\<lambda>(k, cid, nm, sg). cid) (dim_customer_of df) = map fst (map snd (dim_customer_of df))"
    by simp
  then show ?thesis
    using sorted_sort_key [of fst "drop_duplicates (map (\<lambda>r. (customer_id r, customer_name r, segment r)) df)"]
    by (simp only: dim_customer_rows)
qed

lemma dim_product_sorted: "sorted (map (\<lambda>(k, pid, rest). pid) (dim_product_of df))"
proof -
  have "(\<lambda>(k, pid, rest). pid) =
        fst \<circ> (\<lambda>(k :: int, pid :: string, cat :: string, sub :: string, nm :: string option). (pid, cat, sub))"
    by (auto simp: fun_eq_iff)
  then have "map (\<lambda>(k, pid, rest). pid) (dim_product_of df) =
      map fst (map (\<lambda>(k, pid, cat, sub, nm). (pid, cat, sub)) (dim_product_of df))"
    by simp
  then show ?thesis
    using sorted_sort_key [of fst "drop_duplicates (map (\<lambda>r. (product_id r, category r, sub_category r)) df)"]
    by (simp only: dim_product_rows)
qed

lemma na_last_inj: "na_last a = na_last b \<Longrightarrow> a = b"
  by (cases a; cases b) simp_all

lemma geo_sort_key_inj: "inj geo_sort_key"
proof (rule injI)
  fix a b :: geo
  assume "geo_sort_key a = geo_sort_key b"
  then show "a = b"
    by (cases a rule: geo_sort_key.cases; cases b rule: geo_sort_key.cases)
      (auto dest: na_last_inj)
qed

lemma dim_region_sorted:
  "sorted_wrt (<) (map (\<lambda>row. geo_sort_key (snd row)) (dim_region_of df))"
proof -
  define rows where "rows = drop_duplicates (map geo_of df)"
  have "map (\<lambda>row. geo_sort_key (snd row)) (dim_region_of df) =
        map geo_sort_key (map snd (dim_region_of df))"
    by (simp add: comp_def)
  then have m: "map (\<lambda>row. geo_sort_key (snd row)) (dim_region_of df) =
        map geo_sort_key (sort_key geo_sort_key rows)"
    by (simp only: dim_region_of_def map_snd_insert_key rows_def)
  have "distinct rows" unfolding rows_def by (rule distinct_drop_duplicates)
  then have d: "distinct (map geo_sort_key (sort_key geo_sort_key rows))"
    using inj_on_subset [OF geo_sort_key_inj subset_UNIV] by (simp add: distinct_map)
  have s: "sorted (map geo_sort_key (sort_key geo_sort_key rows))"
    by (rule sorted_sort_key)
  from s d show ?thesis unfolding m by (simp add: strict_sorted_iff)
qed

lemma dim_ship_mode_sorted: "sorted_wrt (<) (map snd (dim_ship_mode_of df))"
  by (simp add: dim_ship_mode_of_def map_snd_insert_key strict_sorted_iff distinct_drop_duplicates)

lemma fact_ids:
  assumes "build_fact df d2k c2k p2k g2k s2k = Inr fs"
  shows "map sales_id fs = [1..int (length df)] \<and> map fact_row_id fs = map row_id df"
proof -
  note r = build_fact_rows [OF assms]
  have "map sales_id fs = [1..int (length df)]"
    by (rule nth_equalityI) (simp_all add: r)
  moreover have "map fact_row_id fs = map row_id df"
    by (rule nth_equalityI) (simp_all add: r)
  ultimately show ?thesis by simp
qed

text \<open>
  C6 as amended.  In a schema the build returns, the customer, product, region and
  ship-mode dimensions each carry the keys \<open>1, 2, .., N\<close> in row order, \<open>N\<close> the
  number of rows; the customer and product rows ascend by identifier, the region rows
  ascend strictly by their five columns (a missing cell after every text) and the
  ship-mode rows ascend strictly by the ship mode.  The date dimension is not keyed by
  \<open>1 .. N\<close>: the key of each of its rows is the number \<^verbatim>\<open>YYYYMMDD\<close> of the
  day of the row, and these keys ascend strictly when the dates of the frame are well
  formed.  The fact table carries the identifiers \<open>1, .., length df\<close> on the rows of
  the input in input order.
\<close>

theorem surrogate_keys_dense:
  assumes "build_star_schema df = Inr s"
  shows "map fst (dim_customer s) = [1..int (length (dim_customer s))] \<and>
         sorted (map (\<lambda>(k, cid, nm, sg). cid) (dim_customer s)) \<and>
         map fst (dim_product s) = [1..int (length (dim_product s))] \<and>
         sorted (map (\<lambda>(k, pid, rest). pid) (dim_product s)) \<and>
         map fst (dim_region s) = [1..int (length (dim_region s))] \<and>
         sorted_wrt (<) (map (\<lambda>row. geo_sort_key (snd row)) (dim_region s)) \<and>
         map fst (dim_ship_mode s) = [1..int (length (dim_ship_mode s))] \<and>
         sorted_wrt (<) (map snd (dim_ship_mode s)) \<and>
         map date_key (dim_date s) = map (\<lambda>row. ymd_key (fst (full_date row))) (dim_date s) \<and>
         ((\<forall>r\<in>set df. \<forall>x. order_date r = Some x \<or> ship_date r = Some x \<longrightarrow> valid_ts x) \<longrightarrow>
            sorted_wrt (<) (map date_key (dim_date s))) \<and>
         map sales_id (fact_sales s) = [1..int (length df)] \<and>
         map fact_row_id (fact_sales s) = map row_id df"
proof -
  from assms obtain stamps where
    dr: "date_range (min_all df) (max_all df) = Inr stamps" and
    f: "build_fact df (date_to_key (map dim_date_of stamps))
           (cust_to_key (dim_customer_of df)) (prod_to_key (dim_product_of df))
           (geo_to_key (dim_region_of df)) (ship_to_key (dim_ship_mode_of df)) = Inr (fact_sales s)"
    and d: "dim_date s = map dim_date_of stamps"
      "dim_customer s = dim_customer_of df" "dim_product s = dim_product_of df"
      "dim_region s = dim_region_of df" "dim_ship_mode s = dim_ship_mode_of df"
    by (rule build_star_schema_Inr)
  have k: "map date_key (map dim_date_of stamps) =
      map (\<lambda>row. ymd_key (fst (full_date row))) (map dim_date_of stamps)"
    using date_key_of_full_date by (simp add: comp_def)
  have srt: "sorted_wrt (<) (map date_key (map dim_date_of stamps))"
    if "\<forall>r\<in>set df. \<forall>x. order_date r = Some x \<or> ship_date r = Some x \<longrightarrow> valid_ts x"
    using dr that by (rule dim_date_keys_sorted)
  show ?thesis
    unfolding d
    using build_dims_keys [of df] dim_customer_sorted [of df] dim_product_sorted [of df]
      dim_region_sorted [of df] dim_ship_mode_sorted [of df] fact_ids [OF f] k srt
    by (intro conjI impI) simp_all
qed

lemma two_names_valid:
  "\<forall>r\<in>set two_names. \<forall>x. order_date r = Some x \<or> ship_date r = Some x \<longrightarrow> valid_ts x"
  by (auto simp: two_names_def order_row_def days_in_month_def is_leap_def day_ns_def)

theorem surrogate_keys_dense_witness:
  "build_star_schema two_names = Inr (projr (build_star_schema two_names)) \<and>
   map fst (dim_customer (projr (build_star_schema two_names))) = [1, 2] \<and>
   sorted_wrt (<) (map date_key (dim_date (projr (build_star_schema two_names)))) \<and>
   map sales_id (fact_sales (projr (build_star_schema two_names))) = [1, 2] \<and>
   map fact_row_id (fact_sales (projr (build_star_schema two_names))) = [7, 3]"
proof -
  have h: "build_star_schema two_names = Inr (projr (build_star_schema two_names))"
    by code_simp
  have n: "length (dim_customer (projr (build_star_schema two_names))) = 2"
    and m: "length two_names = 2" and r: "map row_id two_names = [7, 3]"
    by code_simp+
  from surrogate_keys_dense [OF h] two_names_valid h show ?thesis
    unfolding n m r by (simp add: upto_rec1)
qed

text \<open>
  The date dimension of a frame with the single day 2021-01-05 has one row, and its key
  is 20210105, not 1.  And the customer rows are ordered by the identifier only: of two
  order lines of the customer C1, under the name Bob and then under the name Al, the
  row of Bob gets the key 1 and the row of Al the key 2, which is not the ascending
  order of the rows.
\<close>

theorem date_keys_not_dense:
  "map_sum id (\<lambda>s. (map date_key (dim_date s), length (dim_date s)))
     (build_star_schema
        [order_row 1 (Some ((2021, 1, 5), 0)) (Some ((2021, 1, 5), 0)) ''C1'' ''Al'' ''P1'' ''Widget''
           ''Technology'' (10 :: int)]) = Inr ([20210105], 1) \<and>
   map_sum id (\<lambda>s. (dim_customer s, sorted (map snd (dim_customer s))))
     (build_star_schema bob_al) =
     Inr ([(1, ''C1'', ''Bob'', ''Consumer''), (2, ''C1'', ''Al'', ''Consumer'')], False)"
  by code_simp

section \<open>Referential completeness\<close>

lemma table_lookup:
  assumes "k \<in> kf ` set rows"
  shows "py_dict (zip (map kf rows) (map vf rows)) k =
           Some (vf (last (filter (\<lambda>row. kf row = k) rows)))"
    and "filter (\<lambda>row. kf row = k) rows \<noteq> []"
    and "vf (last (filter (\<lambda>row. kf row = k) rows)) \<in> vf ` set rows"
proof -
  show "py_dict (zip (map kf rows) (map vf rows)) k =
           Some (vf (last (filter (\<lambda>row. kf row = k) rows)))"
    using assms by (simp add: py_dict_table)
  show ne: "filter (\<lambda>row. kf row = k) rows \<noteq> []"
    using assms by (auto simp: filter_empty_conv)
  from last_filter_in [OF ne]
  show "vf (last (filter (\<lambda>row. kf row = k) rows)) \<in> vf ` set rows" by blast
qed

lemma cust_to_key_eq:
  "cust_to_key dc = py_dict (zip (map (\<lambda>row. fst (snd row)) dc) (map fst dc))"
proof -
  have "(\<lambda>(k, cid, nm, sg). cid) = (\<lambda>row :: int \<times> string \<times> string \<times> string. fst (snd row))"
    by (auto simp: fun_eq_iff)
  then show ?thesis by (simp add: cust_to_key_def)
qed

lemma prod_to_key_eq:
  "prod_to_key dp = py_dict (zip (map (\<lambda>row. fst (snd row)) dp) (map fst dp))"
proof -
  have "(\<lambda>(k, pid, rest). pid) =
        (\<lambda>row :: int \<times> string \<times> string \<times> string \<times> string option. fst (snd row))"
    by (auto simp: fun_eq_iff)
  then show ?thesis by (simp add: prod_to_key_def)
qed


lemma set_snd_insert_key: "snd ` set (insert_key rows) = set rows"
  using map_snd_insert_key [of rows] by (metis list.set_map)

lemma dim_customer_set:
  "snd ` set (dim_customer_of df) = (\<lambda>r. (customer_id r, customer_name r, segment r)) ` set df"
  by (simp add: dim_customer_of_def set_snd_insert_key set_drop_duplicates)

lemma dim_customer_ids:
  "(\<lambda>row. fst (snd row)) ` set (dim_customer_of df) = customer_id ` set df"
proof -
  have "(\<lambda>row. fst (snd row)) ` set (dim_customer_of df) = fst ` snd ` set (dim_customer_of df)"
    by (simp add: image_image)
  then show ?thesis by (simp add: dim_customer_set image_image)
qed

lemma dim_product_set:
  "(\<lambda>(k, pid, cat, sub, nm). (pid, cat, sub)) ` set (dim_product_of df) =
     (\<lambda>r. (product_id r, category r, sub_category r)) ` set df"
proof -
  have "(\<lambda>(k, pid, cat, sub, nm). (pid, cat, sub)) ` set (dim_product_of df) =
        set (map (\<lambda>(k, pid, cat, sub, nm). (pid, cat, sub)) (dim_product_of df))"
    by simp
  then show ?thesis by (simp only: dim_product_rows set_sort set_drop_duplicates list.set_map)
qed

lemma dim_product_ids:
  "(\<lambda>row. fst (snd row)) ` set (dim_product_of df) = product_id ` set df"
proof -
  have "(\<lambda>row. fst (snd row)) ` set (dim_product_of df) =
        (\<lambda>row. fst ((\<lambda>(k, pid, cat, sub, nm). (pid, cat, sub)) row)) ` set (dim_product_of df)"
    by (rule image_cong) auto
  also have "\<dots> = fst ` (\<lambda>(k, pid, cat, sub, nm). (pid, cat, sub)) ` set (dim_product_of df)"
    by (simp only: image_image)
  also have "\<dots> = product_id ` set df"
    by (simp add: dim_product_set image_image)
  finally show ?thesis .
qed




lemma cust_lookup:
  assumes "r \<in> set df"
  shows "cust_to_key (dim_customer_of df) (customer_id r) =
           Some (fst (last (filter (\<lambda>row. fst (snd row) = customer_id r) (dim_customer_of df))))"
    and "filter (\<lambda>row. fst (snd row) = customer_id r) (dim_customer_of df) \<noteq> []"
    and "fst (last (filter (\<lambda>row. fst (snd row) = customer_id r) (dim_customer_of df)))
           \<in> fst ` set (dim_customer_of df)"
proof -
  from assms have "customer_id r \<in> (\<lambda>row. fst (snd row)) ` set (dim_customer_of df)"
    by (simp add: dim_customer_ids)
  note t = table_lookup(1) [OF this, where vf = fst] table_lookup(2) [OF this]
    table_lookup(3) [OF this, where vf = fst]
  from t(1) show "cust_to_key (dim_customer_of df) (customer_id r) =
           Some (fst (last (filter (\<lambda>row. fst (snd row) = customer_id r) (dim_customer_of df))))"
    by (simp add: cust_to_key_eq)
  from t(2) show "filter (\<lambda>row. fst (snd row) = customer_id r) (dim_customer_of df) \<noteq> []" .
  from t(3) show "fst (last (filter (\<lambda>row. fst (snd row) = customer_id r) (dim_customer_of df)))
           \<in> fst ` set (dim_customer_of df)" .
qed

lemma prod_lookup:
  assumes "r \<in> set df"
  shows "prod_to_key (dim_product_of df) (product_id r) =
           Some (fst (last (filter (\<lambda>row. fst (snd row) = product_id r) (dim_product_of df))))"
    and "filter (\<lambda>row. fst (snd row) = product_id r) (dim_product_of df) \<noteq> []"
    and "fst (last (filter (\<lambda>row. fst (snd row) = product_id r) (dim_product_of df)))
           \<in> fst ` set (dim_product_of df)"
proof -
  from assms have "product_id r \<in> (\<lambda>row. fst (snd row)) ` set (dim_product_of df)"
    by (simp add: dim_product_ids)
  note t = table_lookup(1) [OF this, where vf = fst] table_lookup(2) [OF this]
    table_lookup(3) [OF this, where vf = fst]
  from t(1) show "prod_to_key (dim_product_of df) (product_id r) =
           Some (fst (last (filter (\<lambda>row. fst (snd row) = product_id r) (dim_product_of df))))"
    by (simp add: prod_to_key_eq)
  from t(2) show "filter (\<lambda>row. fst (snd row) = product_id r) (dim_product_of df) \<noteq> []" .
  from t(3) show "fst (last (filter (\<lambda>row. fst (snd row) = product_id r) (dim_product_of df)))
           \<in> fst ` set (dim_product_of df)" .
qed






section \<open>Lookups keyed on the bare identifier\<close>

text \<open>
  C10.  The customer dimension has one row per distinct (identifier, name, segment)
  and the product dimension one per distinct (identifier, category, sub-category), but
  the lookups are keyed on the identifier alone (the second column of a dimension row):
  the customer key of a fact row is the key of the last row of the customer dimension
  with the row's customer identifier, and the product key that of the last row of the
  product dimension with its product identifier, whatever the other columns hold.
\<close>

theorem lookups_keyed_on_identifier:
  assumes "build_star_schema df = Inr s"
  shows "distinct (map snd (dim_customer s)) \<and>
    set (map snd (dim_customer s)) = (\<lambda>r. (customer_id r, customer_name r, segment r)) ` set df \<and>
    distinct (map (\<lambda>(k, pid, cat, sub, nm). (pid, cat, sub)) (dim_product s)) \<and>
    set (map (\<lambda>(k, pid, cat, sub, nm). (pid, cat, sub)) (dim_product s)) =
      (\<lambda>r. (product_id r, category r, sub_category r)) ` set df \<and>
    (\<forall>i<length df.
       filter (\<lambda>row. fst (snd row) = customer_id (df ! i)) (dim_customer s) \<noteq> [] \<and>
       customer_key (fact_sales s ! i) =
         Some (fst (last (filter (\<lambda>row. fst (snd row) = customer_id (df ! i)) (dim_customer s)))) \<and>
       filter (\<lambda>row. fst (snd row) = product_id (df ! i)) (dim_product s) \<noteq> [] \<and>
       product_key (fact_sales s ! i) =
         Some (fst (last (filter (\<lambda>row. fst (snd row) = product_id (df ! i)) (dim_product s)))))"
proof -
  from assms obtain days where
    f: "build_fact df (date_to_key (map dim_date_of days))
           (cust_to_key (dim_customer_of df)) (prod_to_key (dim_product_of df))
           (geo_to_key (dim_region_of df)) (ship_to_key (dim_ship_mode_of df)) = Inr (fact_sales s)"
    and d: "dim_customer s = dim_customer_of df" "dim_product s = dim_product_of df"
    by (rule build_star_schema_Inr)
  note rows = build_fact_rows [OF f]
  have c1: "distinct (map snd (dim_customer_of df))"
    by (simp add: dim_customer_rows distinct_drop_duplicates)
  have c2: "set (map snd (dim_customer_of df)) =
      (\<lambda>r. (customer_id r, customer_name r, segment r)) ` set df"
    using dim_customer_set [of df] by simp
  have p1: "distinct (map (\<lambda>(k, pid, cat, sub, nm). (pid, cat, sub)) (dim_product_of df))"
    by (simp only: dim_product_rows distinct_sort distinct_drop_duplicates)
  have p2: "set (map (\<lambda>(k, pid, cat, sub, nm). (pid, cat, sub)) (dim_product_of df)) =
      (\<lambda>r. (product_id r, category r, sub_category r)) ` set df"
    using dim_product_set [of df] by simp
  have rowwise: "filter (\<lambda>row. fst (snd row) = customer_id (df ! i)) (dim_customer_of df) \<noteq> [] \<and>
       customer_key (fact_sales s ! i) =
         Some (fst (last (filter (\<lambda>row. fst (snd row) = customer_id (df ! i)) (dim_customer_of df)))) \<and>
       filter (\<lambda>row. fst (snd row) = product_id (df ! i)) (dim_product_of df) \<noteq> [] \<and>
       product_key (fact_sales s ! i) =
         Some (fst (last (filter (\<lambda>row. fst (snd row) = product_id (df ! i)) (dim_product_of df))))"
    if i: "i < length df" for i
  proof -
    from i have r: "df ! i \<in> set df" by simp
    show ?thesis
      using cust_lookup(1,2) [OF r] prod_lookup(1,2) [OF r] by (simp add: rows(2) [OF i])
  qed
  show ?thesis unfolding d using c1 c2 p1 p2 rowwise by blast
qed

text \<open>
  In \<open>two_names\<close> the customer C1 occurs with the names Al and Alice: the dimension
  has a row for each, and the fact row of the order line of Al refers to the row of Alice.
\<close>

theorem lookups_keyed_on_identifier_witness:
  "build_star_schema two_names = Inr (projr (build_star_schema two_names)) \<and>
   dim_customer (projr (build_star_schema two_names)) =
     [(1, ''C1'', ''Al'', ''Consumer''), (2, ''C1'', ''Alice'', ''Consumer'')] \<and>
   customer_name (two_names ! 0) = ''Al'' \<and>
   customer_key (fact_sales (projr (build_star_schema two_names)) ! 0) = Some 2"
proof -
  have h: "build_star_schema two_names = Inr (projr (build_star_schema two_names))"
    by code_simp
  have dc: "dim_customer (projr (build_star_schema two_names)) =
     [(1, ''C1'', ''Al'', ''Consumer''), (2, ''C1'', ''Alice'', ''Consumer'')]"
    by code_simp
  have i: "0 < length two_names" by (simp add: two_names_def)
  have r: "customer_id (two_names ! 0) = ''C1''" "customer_name (two_names ! 0) = ''Al''"
    by (simp_all add: two_names_def order_row_def)
  from lookups_keyed_on_identifier [OF h] i
  have "customer_key (fact_sales (projr (build_star_schema two_names)) ! 0) =
         Some (fst (last (filter (\<lambda>row. fst (snd row) = customer_id (two_names ! 0))
            (dim_customer (projr (build_star_schema two_names))))))"
    by blast
  then have "customer_key (fact_sales (projr (build_star_schema two_names)) ! 0) = Some 2"
    unfolding dc r by simp
  with h dc r show ?thesis by simp
qed

section \<open>Lookup misses\<close>




section \<open>The span of the date dimension\<close>

text \<open>
  Whenever the build succeeds (which needs an order date) on a frame of well-formed
  timestamps, the date dimension starts at the day of the earliest of all order and ship
  dates and has one row per day up to the day of the latest, less that last day when the
  latest timestamp is earlier in its day than the earliest is in its own; its days and
  its keys ascend strictly.  By \<open>ymd_key_strict_mono\<close> the key is a strictly
  increasing function of the day.
\<close>

lemma date_dimension_span:
  assumes "build_star_schema df = Inr s"
    and "\<forall>r\<in>set df. \<forall>x. order_date r = Some x \<or> ship_date r = Some x \<longrightarrow> valid_ts x"
  shows "\<exists>lo hi. min_all df = Some lo \<and> max_all df = Some hi \<and>
     (\<forall>r\<in>set df. \<forall>x. order_date r = Some x \<or> ship_date r = Some x \<longrightarrow> lo \<le> x \<and> x \<le> hi) \<and>
     int (length (dim_date s)) =
       toordinal (fst hi) - toordinal (fst lo) + 1 - (if snd hi < snd lo then 1 else 0) \<and>
     set (map (\<lambda>row. fst (full_date row)) (dim_date s)) =
       {d. valid_date d \<and> fst lo \<le> d \<and> d \<le> fst hi \<and> \<not> (d = fst hi \<and> snd hi < snd lo)} \<and>
     sorted_wrt (<) (map (\<lambda>row. fst (full_date row)) (dim_date s)) \<and>
     sorted_wrt (<) (map date_key (dim_date s))"
proof -
  from assms(1) obtain stamps where
    dr: "date_range (min_all df) (max_all df) = Inr stamps" and d: "dim_date s = map dim_date_of stamps"
    by (rule build_star_schema_Inr)
  from dr obtain lo hi where lo: "min_all df = Some lo" and hi: "max_all df = Some hi"
    by (rule date_range_Inr)
  from build_dates [OF lo hi assms(2)] obtain days where
    dr': "date_range (min_all df) (max_all df) = Inr (map (\<lambda>d. (d, snd lo)) days)"
    and len: "int (length days) =
             toordinal (fst hi) - toordinal (fst lo) + 1 - (if snd hi < snd lo then 1 else 0)"
    and srt: "sorted_wrt (<) days"
    and set_days: "set days = {d. valid_date d \<and> fst lo \<le> d \<and> d \<le> fst hi \<and>
                          \<not> (d = fst hi \<and> snd hi < snd lo)}"
    and between: "\<forall>r\<in>set df. \<forall>x. order_date r = Some x \<or> ship_date r = Some x \<longrightarrow>
              lo \<le> x \<and> x \<le> hi"
    by blast
  from dr dr' have st: "stamps = map (\<lambda>d. (d, snd lo)) days" by simp
  have keys: "sorted_wrt (<) (map date_key (map dim_date_of stamps))"
    using dr assms(2) by (rule dim_date_keys_sorted)
  have l: "int (length (map dim_date_of stamps)) =
       toordinal (fst hi) - toordinal (fst lo) + 1 - (if snd hi < snd lo then 1 else 0)"
    unfolding st using len by simp
  show ?thesis
    apply (rule exI [of _ lo], rule exI [of _ hi])
    unfolding d
    apply (intro conjI)
          apply (rule lo)
         apply (rule hi)
        apply (rule between)
       apply (rule l)
      apply (simp only: st dim_date_of_stamps set_days)
     apply (simp only: st dim_date_of_stamps srt)
    apply (rule keys)
    done
qed

section \<open>Product names\<close>











end
